theory Spec2Isabelle
  imports Main "HOL-Library.Multiset" "HOL-Library.Sublist"
begin

section \<open>Triple model (rdf.go)\<close>

text \<open>
  A Go \<open>string\<close> is a finite sequence of bytes; \<^typ>\<open>char\<close> is the 8-bit byte, so a Go
  string, a \<open>[]byte\<close> and the content of a byte stream are all \<^typ>\<open>string\<close> here and the
  conversions \<open>string(word)\<close> and \<open>buff.WriteString(s)\<close> are the identity.
\<close>

record literal =
  "typ" :: string
  val :: string

record object =
  isLit :: bool
  resourceID :: string
  lit :: literal

record triple =
  sub :: string
  pred :: string
  obj :: object

definition Type :: "literal \<Rightarrow> string" where
  "Type l = typ l"

definition Value :: "literal \<Rightarrow> string" where
  "Value l = val l"

definition Literal :: "object \<Rightarrow> literal \<times> bool" where
  "Literal ob = (lit ob, isLit ob)"

definition ResourceID :: "object \<Rightarrow> string \<times> bool" where
  "ResourceID ob = (resourceID ob, \<not> isLit ob)"

definition Subject :: "triple \<Rightarrow> string" where
  "Subject t = sub t"

definition Predicate :: "triple \<Rightarrow> string" where
  "Predicate t = pred t"

definition Object :: "triple \<Rightarrow> object" where
  "Object t = obj t"

text \<open>\<open>func (o object) Equal(other Object) bool\<close>, branch by branch.\<close>

definition object_Equal :: "object \<Rightarrow> object \<Rightarrow> bool" where
  "object_Equal ob other =
     (case Literal ob of (l, ok) \<Rightarrow>
      case Literal other of (otherLit, otherOk) \<Rightarrow>
        if ok \<noteq> otherOk then False
        else if ok then Type l = Type otherLit \<and> Value l = Value otherLit
        else
          (case ResourceID ob of (resId, ok') \<Rightarrow>
           case ResourceID other of (otherResId, otherOk') \<Rightarrow>
             if ok' \<noteq> otherOk' then False
             else if ok' then resId = otherResId
             else True))"

text \<open>
  A value of the interface type \<open>Triple\<close>: the \<open>nil\<close> interface value, or a value that holds
  a \<open>*triple\<close>, the only implementation in the package. The pointer held may itself be
  nil (\<open>Triple_ptr None\<close>); such a value is not \<open>nil\<close> for \<open>==\<close>.
\<close>

datatype Triple = Triple_nil | Triple_ptr "triple option"

text \<open>A run-time panic: a field read through a nil pointer.\<close>

datatype panic = nil_pointer_dereference

text \<open>
  \<open>func (t *triple) Equal(other Triple) bool\<close>. The receiver is a pointer (\<open>None\<close> is
  nil), the argument an interface value. The \<open>switch\<close> takes the first case that holds:
  \<open>t == nil\<close> returns \<open>other == nil\<close>, which is true for the nil interface value only;
  \<open>other == nil\<close> returns false; the next case calls \<open>other.Subject()\<close>, which reads
  \<open>t.sub\<close> through the pointer \<open>other\<close> holds and panics when that pointer is nil.
\<close>

definition triple_Equal :: "triple option \<Rightarrow> Triple \<Rightarrow> panic + bool" where
  "triple_Equal t other =
     (case t of
        None \<Rightarrow> Inr (other = Triple_nil)
      | Some a \<Rightarrow>
          (case other of
             Triple_nil \<Rightarrow> Inr False
           | Triple_ptr None \<Rightarrow> Inl nil_pointer_dereference
           | Triple_ptr (Some b) \<Rightarrow>
               if Subject a \<noteq> Subject b then Inr False
               else if Predicate a \<noteq> Predicate b then Inr False
               else Inr (object_Equal (Object a) (Object b))))"

definition XsdString :: string where
  "XsdString = ''xsd:string''"

definition XsdBoolean :: string where
  "XsdBoolean = ''xsd:boolean''"

definition XsdInteger :: string where
  "XsdInteger = ''xsd:integer''"

section \<open>Errors and in-memory streams\<close>

text \<open>
  A Go \<open>error\<close> is one of the two sentinel values of package \<open>io\<close> (compared by identity
  in \<open>decodeTriple\<close>) or a message made by \<open>errors.New\<close> or \<open>fmt.Errorf\<close>.
\<close>

datatype error = io_EOF | io_ErrUnexpectedEOF | errorString string

fun Error :: "error \<Rightarrow> string" where
  "Error io_EOF = ''EOF''"
| "Error io_ErrUnexpectedEOF = ''unexpected EOF''"
| "Error (errorString s) = s"

text \<open>\<open>fmt.Errorf(pre + "%s", err)\<close>: the text \<open>pre\<close> followed by the message of \<open>err\<close>.\<close>

definition fmt_Errorf :: "string \<Rightarrow> error \<Rightarrow> error" where
  "fmt_Errorf pre e = errorString (pre @ Error e)"

text \<open>
  The reader is an in-memory stream (\<open>bytes.Reader\<close>, \<open>bytes.Buffer\<close>): its state is the
  bytes not yet read, and the only failure is running out of them. \<open>io.ReadFull\<close> asks
  for exactly \<open>n\<close> bytes: none wanted is no read at all, none left is \<open>io.EOF\<close>, too few
  left is \<open>io.ErrUnexpectedEOF\<close> with the stream drained.
\<close>

definition io_ReadFull :: "string \<Rightarrow> nat \<Rightarrow> (error + string) \<times> string" where
  "io_ReadFull rd n =
     (if n = 0 then (Inr [], rd)
      else if rd = [] then (Inl io_EOF, [])
      else if length rd < n then (Inl io_ErrUnexpectedEOF, [])
      else (Inr (take n rd), drop n rd))"

text \<open>\<open>type wordLength uint32\<close>: the conversion \<open>wordLength(len(s))\<close> keeps the low 32 bits.\<close>

definition wordLength :: "nat \<Rightarrow> nat" where
  "wordLength n = n mod 4294967296"

text \<open>
  \<open>binary.BigEndian\<close> on a \<open>uint32\<close>: four bytes, most significant first. The decoder
  only ever hands \<open>BigEndian_Uint32\<close> the four bytes of a completed read.
\<close>

definition BigEndian_PutUint32 :: "nat \<Rightarrow> string" where
  "BigEndian_PutUint32 w =
     [char_of (w div 16777216), char_of (w div 65536), char_of (w div 256), char_of w]"

definition BigEndian_Uint32 :: "string \<Rightarrow> nat" where
  "BigEndian_Uint32 bs =
     (case bs of
        [b0, b1, b2, b3] \<Rightarrow>
          ((of_char b0 * 256 + of_char b1) * 256 + of_char b2) * 256 + of_char b3
      | _ \<Rightarrow> 0)"

text \<open>
  \<open>binary.Read(r, binary.BigEndian, &x)\<close> for a \<open>uint32\<close> and for a \<open>uint8\<close>: a full
  read of four bytes, or of one byte (so \<open>bs\<close> holds exactly one byte where \<open>hd\<close> reads
  it), and the error of \<open>io.ReadFull\<close> unchanged otherwise.
\<close>

definition binary_Read_uint32 :: "string \<Rightarrow> (error + nat) \<times> string" where
  "binary_Read_uint32 rd =
     (case io_ReadFull rd 4 of
        (Inl e, rd') \<Rightarrow> (Inl e, rd')
      | (Inr bs, rd') \<Rightarrow> (Inr (BigEndian_Uint32 bs), rd'))"

definition binary_Read_uint8 :: "string \<Rightarrow> (error + char) \<times> string" where
  "binary_Read_uint8 rd =
     (case io_ReadFull rd 1 of
        (Inl e, rd') \<Rightarrow> (Inl e, rd')
      | (Inr bs, rd') \<Rightarrow> (Inr (hd bs), rd'))"

section \<open>Binary codec (codec.go)\<close>

definition resourceTypeEncoding :: char where
  "resourceTypeEncoding = CHR 0x00"

definition literalTypeEncoding :: char where
  "literalTypeEncoding = CHR 0x01"

text \<open>
  \<open>encodeTriple\<close>: the buffer after each \<open>binary.Write\<close> and \<open>WriteString\<close>, in the order
  of the source. The error it returns is always \<open>nil\<close>.
\<close>

definition encodeTriple :: "triple \<Rightarrow> string \<times> error option" where
  "encodeTriple t =
     (let s = Subject t; p = Predicate t;
          buff = [];
          buff = buff @ BigEndian_PutUint32 (wordLength (length s));
          buff = buff @ s;
          buff = buff @ BigEndian_PutUint32 (wordLength (length p));
          buff = buff @ p;
          ob = Object t
      in case Literal ob of
           (l, isL) \<Rightarrow>
             if isL then
               (let buff = buff @ [literalTypeEncoding];
                    ty = Type l;
                    buff = buff @ BigEndian_PutUint32 (wordLength (length ty));
                    buff = buff @ ty;
                    litVal = Value l;
                    buff = buff @ BigEndian_PutUint32 (wordLength (length litVal));
                    buff = buff @ litVal
                in (buff, None))
             else
               (let buff = buff @ [resourceTypeEncoding];
                    resID = fst (ResourceID ob);
                    buff = buff @ BigEndian_PutUint32 (wordLength (length resID));
                    buff = buff @ resID
                in (buff, None)))"

text \<open>
  \<open>binaryEncoder.Encode\<close> over a writer \<open>w\<close> whose \<open>Write\<close> is the parameter \<open>wr\<close>: it
  returns the writer and the first error, and stops there.
\<close>

fun binaryEncoder_Encode ::
  "('w \<Rightarrow> string \<Rightarrow> 'w \<times> error option) \<Rightarrow> 'w \<Rightarrow> triple list \<Rightarrow> 'w \<times> error option" where
  "binaryEncoder_Encode wr w [] = (w, None)"
| "binaryEncoder_Encode wr w (t # tris) =
     (case encodeTriple t of
        (b, Some e) \<Rightarrow> (w, Some e)
      | (b, None) \<Rightarrow>
          (case wr w b of
             (w', Some e) \<Rightarrow> (w', Some e)
           | (w', None) \<Rightarrow> binaryEncoder_Encode wr w' tris))"

text \<open>\<open>bytes.Buffer.Write\<close> appends and never fails.\<close>

definition Buffer_Write :: "string \<Rightarrow> string \<Rightarrow> string \<times> error option" where
  "Buffer_Write buf p = (buf @ p, None)"

text \<open>
  \<open>type binaryDecoder struct\<close>: the fields \<open>r\<close> (here the bytes not yet read) and
  \<open>triples\<close>, named \<open>dec_r\<close> and \<open>dec_triples\<close>.
\<close>

record binaryDecoder =
  dec_r :: string
  dec_triples :: "triple list"

definition NewBinaryDecoder :: "string \<Rightarrow> binaryDecoder" where
  "NewBinaryDecoder rd = \<lparr>dec_r = rd, dec_triples = []\<rparr>"

definition readWord :: "binaryDecoder \<Rightarrow> (error + string) \<times> binaryDecoder" where
  "readWord dec =
     (case binary_Read_uint32 (dec_r dec) of
        (Inl e, rd) \<Rightarrow> (Inl e, dec\<lparr>dec_r := rd\<rparr>)
      | (Inr len, rd) \<Rightarrow>
          (case io_ReadFull rd len of
             (Inl e, rd') \<Rightarrow>
               (Inl (errorString ''triplestore: binary: cannot decode word''), dec\<lparr>dec_r := rd'\<rparr>)
           | (Inr word, rd') \<Rightarrow> (Inr word, dec\<lparr>dec_r := rd'\<rparr>)))"

text \<open>
  \<open>decodeTriple\<close> returns \<open>(done, err)\<close> and leaves the decoder advanced; a decoded triple
  is appended to \<open>dec.triples\<close>.
\<close>

definition decodeTriple :: "binaryDecoder \<Rightarrow> (bool \<times> error option) \<times> binaryDecoder" where
  "decodeTriple dec =
     (case readWord dec of
        (Inl e, d1) \<Rightarrow>
          if e = io_EOF then ((True, None), d1)
          else ((False, Some (fmt_Errorf ''subject: '' e)), d1)
      | (Inr s, d1) \<Rightarrow>
          (case readWord d1 of
             (Inl e, d2) \<Rightarrow> ((False, Some (fmt_Errorf ''predicate: '' e)), d2)
           | (Inr p, d2) \<Rightarrow>
               (case binary_Read_uint8 (dec_r d2) of
                  (Inl e, rd) \<Rightarrow>
                    ((False, Some (fmt_Errorf ''object type: '' e)), d2\<lparr>dec_r := rd\<rparr>)
                | (Inr objType, rd) \<Rightarrow>
                    (let d3 = d2\<lparr>dec_r := rd\<rparr> in
                     if objType = resourceTypeEncoding then
                       (case readWord d3 of
                          (Inl e, d4) \<Rightarrow> ((False, Some (fmt_Errorf ''resource: '' e)), d4)
                        | (Inr resource, d4) \<Rightarrow>
                            ((False, None),
                             d4\<lparr>dec_triples := dec_triples d4 @
                               [\<lparr>sub = s, pred = p,
                                 obj = \<lparr>isLit = False, resourceID = resource,
                                         lit = \<lparr>typ = [], val = []\<rparr>\<rparr>\<rparr>]\<rparr>))
                     else
                       (case readWord d3 of
                          (Inl e, d4) \<Rightarrow> ((False, Some (fmt_Errorf ''literate type: '' e)), d4)
                        | (Inr litType, d4) \<Rightarrow>
                            (case readWord d4 of
                               (Inl e, d5) \<Rightarrow> ((False, Some (fmt_Errorf ''literate: '' e)), d5)
                             | (Inr v, d5) \<Rightarrow>
                                 ((False, None),
                                  d5\<lparr>dec_triples := dec_triples d5 @
                                    [\<lparr>sub = s, pred = p,
                                      obj = \<lparr>isLit = True, resourceID = [],
                                              lit = \<lparr>typ = litType, val = v\<rparr>\<rparr>\<rparr>]\<rparr>)))))))"

lemma io_ReadFull_length:
  "io_ReadFull rd n = (res, rd') \<Longrightarrow> length rd' \<le> length rd"
  by (auto simp: io_ReadFull_def split: if_splits)

lemma io_ReadFull_shrinks:
  "io_ReadFull rd n = (Inr bs, rd') \<Longrightarrow> 0 < n \<Longrightarrow> length rd' < length rd"
  by (auto simp: io_ReadFull_def split: if_splits)

lemma readWord_length:
  "readWord dec = (res, dec') \<Longrightarrow> length (dec_r dec') \<le> length (dec_r dec)"
  by (fastforce simp: readWord_def binary_Read_uint32_def
      split: prod.splits sum.splits dest: io_ReadFull_length)

lemma readWord_shrinks:
  "readWord dec = (Inr w, dec') \<Longrightarrow> length (dec_r dec') < length (dec_r dec)"
  by (fastforce simp: readWord_def binary_Read_uint32_def
      split: prod.splits sum.splits dest: io_ReadFull_length io_ReadFull_shrinks)

lemma decodeTriple_shrinks:
  assumes "decodeTriple dec = ((False, None), dec')"
  shows "length (dec_r dec') < length (dec_r dec)"
proof -
  from assms obtain s d1 where "readWord dec = (Inr s, d1)"
    by (auto simp: decodeTriple_def split: prod.splits sum.splits if_splits)
  then have 1: "length (dec_r d1) < length (dec_r dec)"
    by (rule readWord_shrinks)
  from assms \<open>readWord dec = (Inr s, d1)\<close> obtain p d2 where 2: "readWord d1 = (Inr p, d2)"
    by (auto simp: decodeTriple_def split: prod.splits sum.splits if_splits)
  from assms \<open>readWord dec = (Inr s, d1)\<close> 2 obtain k rd
    where 3: "binary_Read_uint8 (dec_r d2) = (Inr k, rd)"
    by (auto simp: decodeTriple_def split: prod.splits sum.splits if_splits)
  have l2: "length (dec_r d2) \<le> length (dec_r d1)"
    using 2 by (rule readWord_length)
  have l3: "length rd \<le> length (dec_r d2)"
    using 3 by (auto simp: binary_Read_uint8_def split: prod.splits sum.splits
        dest: io_ReadFull_length)
  have "length (dec_r dec') \<le> length rd"
    using assms \<open>readWord dec = (Inr s, d1)\<close> 2 3
    by (auto simp: decodeTriple_def Let_def split: prod.splits sum.splits if_splits
        dest!: readWord_length)
  with 1 l2 l3 show ?thesis by simp
qed

text \<open>
  \<open>binaryDecoder.Decode\<close>: the \<open>for\<close> loop around \<open>decodeTriple\<close>. It returns
  \<open>(dec.triples, nil)\<close> on \<open>done\<close> and \<open>(nil, err)\<close> on an error. Each round that goes on
  has consumed bytes of a finite stream, which is why the loop ends.
\<close>

function binaryDecoder_Decode :: "binaryDecoder \<Rightarrow> triple list \<times> error option" where
  "binaryDecoder_Decode dec =
     (case decodeTriple dec of
        ((done, err), dec') \<Rightarrow>
          if done then (dec_triples dec', None)
          else (case err of
                  Some e \<Rightarrow> ([], Some e)
                | None \<Rightarrow> binaryDecoder_Decode dec'))"
  by pat_completeness auto
termination
  by (relation "measure (\<lambda>dec. length (dec_r dec))") (simp_all add: decodeTriple_shrinks)

declare binaryDecoder_Decode.simps [simp del]

section \<open>N-Triples encoder (codec.go)\<close>

text \<open>
  \<open>ntriplesEncoder.Encode\<close>: one buffer per triple, written to the writer before the next
  triple is looked at. \<open>fmt.Sprintf\<close> with \<open>%s\<close> verbs puts its string arguments in place.
  The \<open>switch\<close> on the literal's type takes the first case that matches and leaves
  \<open>litType\<close> empty when none does. The constant \<open>XsdDateTime\<close> is declared in no file
  under src/, so it is the first parameter.
\<close>

fun ntriplesEncoder_Encode ::
  "string \<Rightarrow> ('w \<Rightarrow> string \<Rightarrow> 'w \<times> error option) \<Rightarrow> 'w \<Rightarrow> triple list \<Rightarrow> 'w \<times> error option" where
  "ntriplesEncoder_Encode XsdDateTime wr w [] = (w, None)"
| "ntriplesEncoder_Encode XsdDateTime wr w (t # tris) =
     (let buff = [];
          buff = buff @ (''<'' @ Subject t @ ''> <'' @ Predicate t @ ''> '');
          buff = (case ResourceID (Object t) of
                    (rid, ok) \<Rightarrow> if ok then buff @ (''<'' @ rid @ ''>'') else buff);
          buff = (case Literal (Object t) of
                    (l, ok) \<Rightarrow>
                      if ok then
                        (let litType =
                           (if Type l = XsdBoolean
                              then ''^^<http://www.w3.org/2001/XMLSchema#boolean>''
                            else if Type l = XsdDateTime
                              then ''^^<http://www.w3.org/2001/XMLSchema#dateTime>''
                            else if Type l = XsdInteger
                              then ''^^<http://www.w3.org/2001/XMLSchema#integer>''
                            else [])
                         in buff @ ([CHR 0x22] @ Value l @ [CHR 0x22] @ litType))
                      else buff);
          buff = buff @ [CHR '' '', CHR ''.'', CHR 0x0A]
      in case wr w buff of
           (w', Some e) \<Rightarrow> (w', Some e)
         | (w', None) \<Rightarrow> ntriplesEncoder_Encode XsdDateTime wr w' tris)"

section \<open>Dataset decoder (codec.go)\<close>

text \<open>
  The value each goroutine sends on the channel: the triples and the error of one
  stream's decoder.
\<close>

record result =
  res_err :: "error option"
  res_tris :: "triple list"

text \<open>
  The \<open>for r := range results\<close> loop over the values in the order the channel delivers
  them, and the choice of \<open>errs[0]\<close> after it.
\<close>

fun collect :: "result list \<Rightarrow> triple list \<Rightarrow> error list \<Rightarrow> triple list \<times> error list" where
  "collect [] all errs = (all, errs)"
| "collect (r # results) all errs =
     collect results (all @ res_tris r)
       (case res_err r of Some e \<Rightarrow> errs @ [e] | None \<Rightarrow> errs)"

definition merge_results :: "result list \<Rightarrow> triple list \<times> error option" where
  "merge_results results =
     (case collect results [] [] of
        (all, errs) \<Rightarrow>
          if length errs > 0 then (all, Some (hd errs)) else (all, None))"

text \<open>
  \<open>dec.newDecoderFunc(r).Decode()\<close> for one reader, as the function \<open>decode\<close>.
\<close>

definition run_decoder :: "('r \<Rightarrow> triple list \<times> error option) \<Rightarrow> 'r \<Rightarrow> result" where
  "run_decoder decode reader =
     (case decode reader of (tris, err) \<Rightarrow> \<lparr>res_err = err, res_tris = tris\<rparr>)"

text \<open>
  \<open>datasetDecoder.Decode\<close>: one goroutine per reader, all joined before the channel is
  closed, so the loop receives every stream's result once, in an order the scheduler
  picks. The outcomes are those of \<open>merge_results\<close> on any arrangement of the results.
\<close>

inductive datasetDecoder_Decode ::
  "('r \<Rightarrow> triple list \<times> error option) \<Rightarrow> 'r list \<Rightarrow> triple list \<times> error option \<Rightarrow> bool" where
  "mset results = mset (map (run_decoder decode) rs) \<Longrightarrow>
   datasetDecoder_Decode decode rs (merge_results results)"

section \<open>Store and snapshot\<close>

text \<open>
  Modelled from the spec: the store (\<open>Source\<close>, \<open>Snapshot\<close> and their methods; no file
  under src/ defines them, only struct_test.go calls them). Sections 3, 4.1 and 9: the
  source is an append-only arena of triples, duplicates kept.
\<close>

record Source =
  arena :: "triple list"

text \<open>
  Modelled from the spec: a snapshot shares the arena with its source and pins the
  generation it reads up to (section 9).
\<close>

record Snapshot =
  generation :: nat

text \<open>
  Modelled from the spec: a source is created empty (section 3).
\<close>

definition NewSource :: Source where
  "NewSource = \<lparr>arena = []\<rparr>"

text \<open>
  Modelled from the spec: \<open>Add\<close> appends each triple to the store and never fails
  (section 4.1).
\<close>

definition Source_Add :: "Source \<Rightarrow> triple list \<Rightarrow> Source" where
  "Source_Add src tris = src\<lparr>arena := arena src @ tris\<rparr>"

text \<open>
  Modelled from the spec: \<open>Snapshot()\<close> returns a view of exactly the triples added up
  to the call, without copying them (section 4.1).
\<close>

definition Source_Snapshot :: "Source \<Rightarrow> Snapshot" where
  "Source_Snapshot src = \<lparr>generation = length (arena src)\<rparr>"

text \<open>
  Modelled from the spec: what a snapshot reads. The first argument is the source as it
  is when the query runs, whose arena the snapshot shares; the snapshot reads it up to
  its generation.
\<close>

definition Snapshot_view :: "Source \<Rightarrow> Snapshot \<Rightarrow> triple list" where
  "Snapshot_view src snap = take (generation snap) (arena src)"

text \<open>
  Modelled from the spec: \<open>Count\<close> is the number of triples in the view (section 4.1).
\<close>

definition Snapshot_Count :: "Source \<Rightarrow> Snapshot \<Rightarrow> nat" where
  "Snapshot_Count src snap = length (Snapshot_view src snap)"

text \<open>
  Modelled from the spec: \<open>WithPredObj\<close> returns the triples of the view whose predicate
  is the given one and whose object is \<open>Equal\<close> to the given one (section 4.1).
\<close>

definition Snapshot_WithPredObj :: "Source \<Rightarrow> Snapshot \<Rightarrow> string \<Rightarrow> object \<Rightarrow> triple list" where
  "Snapshot_WithPredObj src snap p ob =
     filter (\<lambda>t. Predicate t = p \<and> object_Equal (Object t) ob) (Snapshot_view src snap)"

section \<open>Lexer: bounded reads\<close>

text \<open>
  The table of \<open>TestLexerReadIRI\<close> in the source: the input handed to \<open>newLexer\<close> and
  the string \<open>readIRI\<close> must return. \<open>CHR 0x22\<close> is the double quote.
\<close>

definition TestLexerReadIRI_tcases :: "(string \<times> string) list" where
  "TestLexerReadIRI_tcases =
     [(''<'', ''''),
      (''>'', ''''),
      ('''', ''''),
      (''z'', ''''),
      (''subject>'', ''subject''),
      (''s  ubject>'', ''s  ubject''),
      (''subject>   <'', ''subject''),
      (''    subject>   <'', ''    subject''),
      (''subject><'', ''subject''),
      (''subje   ct><'', ''subje   ct''),
      (''sub>ject>'', ''sub>ject''),
      (''sub > ject>'', ''sub > ject''),
      (''sub>ject>      '', ''sub>ject''),
      (''subject'', ''''),
      (''pred>   '' @ [CHR 0x22], ''pred''),
      (''pred>'' @ [CHR 0x22], ''pred''),
      (''resource>.'', ''resource''),
      (''resource> .'', ''resource''),
      (''resource>> .'', ''resource>''),
      (''resource>  .   '', ''resource'')]"

text \<open>
  The table of \<open>TestLexerReadStringLiteral\<close> in the source.
\<close>

definition TestLexerReadStringLiteral_tcases :: "(string \<times> string) list" where
  "TestLexerReadStringLiteral_tcases =
     [('''', ''''),
      ([CHR 0x22], ''''),
      (''z'', ''''),
      (''lit'' @ [CHR 0x22], ''lit''),
      (''l it'' @ [CHR 0x22], ''l it''),
      (''li'' @ [CHR 0x22] @ ''t'' @ [CHR 0x22], ''li'' @ [CHR 0x22] @ ''t''),
      (''li '' @ [CHR 0x22] @ ''t'' @ [CHR 0x22], ''li '' @ [CHR 0x22] @ ''t''),
      (''li'' @ [CHR 0x22] @ ''t'' @ [CHR 0x22] @ '' .'', ''li'' @ [CHR 0x22] @ ''t''),
      (''li'' @ [CHR 0x22] @ ''t'' @ [CHR 0x22] @ ''.'', ''li'' @ [CHR 0x22] @ ''t''),
      (''li'' @ [CHR 0x22] @ ''t'' @ [CHR 0x22] @ '' .'', ''li'' @ [CHR 0x22] @ ''t''),
      (''li'' @ [CHR 0x22] @ ''t'' @ [CHR 0x22] @ ''  .  '', ''li'' @ [CHR 0x22] @ ''t''),
      (''li'' @ [CHR 0x22] @ ''t'' @ [CHR 0x22] @ ''^'', ''li'' @ [CHR 0x22] @ ''t''),
      (''li'' @ [CHR 0x22] @ ''t'' @ [CHR 0x22] @ ''^^'', ''li'' @ [CHR 0x22] @ ''t''),
      (''li'' @ [CHR 0x22] @ ''t'' @ [CHR 0x22] @ '' ^'', ''li'' @ [CHR 0x22] @ ''t''),
      (''li'' @ [CHR 0x22] @ ''t'' @ [CHR 0x22] @ '' ^^'', ''li'' @ [CHR 0x22] @ ''t''),
      (''li'' @ [CHR 0x22] @ ''t'' @ [CHR 0x22] @ ''   ^'', ''li'' @ [CHR 0x22] @ ''t''),
      (''li'' @ [CHR 0x22] @ ''t'' @ [CHR 0x22] @ ''     ^^'', ''li'' @ [CHR 0x22] @ ''t'')]"

text \<open>
  Modelled from the spec: whitespace, for the lexer (which no file under src/ defines):
  space, tab, line feed, carriage return.
\<close>

definition isWhitespace :: "char \<Rightarrow> bool" where
  "isWhitespace c = (c = CHR '' '' \<or> c = CHR 0x09 \<or> c = CHR 0x0A \<or> c = CHR 0x0D)"

text \<open>
  Modelled from the spec: section 4.3 rule 3 as worded. The terminator is real when the
  character after it is the end of input, whitespace, a full stop, \<open><\<close> or a double
  quote.
\<close>

fun delimiter_next :: "string \<Rightarrow> bool" where
  "delimiter_next [] = True"
| "delimiter_next (d # ds) = (isWhitespace d \<or> d = CHR ''.'' \<or> d = CHR ''<'' \<or> d = CHR 0x22)"

text \<open>
  Modelled from the spec: the bounded read of section 4.3 as worded, on the input after
  the opening delimiter, with the content read so far. Rule 2: a backslash and the
  character after it are content. Rule 3: a terminator with a delimiter next ends the
  read and is left out, any other terminator is content. Rule 4: input that runs out
  gives no result (\<open>None\<close>).
\<close>

fun bounded_read_spec :: "char \<Rightarrow> string \<Rightarrow> string \<Rightarrow> string option" where
  "bounded_read_spec tm acc [] = None"
| "bounded_read_spec tm acc (c # cs) =
     (if c = CHR 0x5C then
        (case cs of [] \<Rightarrow> None | d # ds \<Rightarrow> bounded_read_spec tm (acc @ [c, d]) ds)
      else if c = tm then
        (if delimiter_next cs then Some acc else bounded_read_spec tm (acc @ [c]) cs)
      else bounded_read_spec tm (acc @ [c]) cs)"

text \<open>
  Modelled from the spec: \<open>readIRI\<close> as section 4.3 words it; no result is the empty
  string.
\<close>

definition readIRI_spec :: "string \<Rightarrow> string" where
  "readIRI_spec input = (case bounded_read_spec (CHR ''>'') [] input of None \<Rightarrow> [] | Some s \<Rightarrow> s)"

text \<open>
  Modelled from the spec: \<open>readStringLiteral\<close> as section 4.3 words it.
\<close>

definition readStringLiteral_spec :: "string \<Rightarrow> string" where
  "readStringLiteral_spec input =
     (case bounded_read_spec (CHR 0x22) [] input of None \<Rightarrow> [] | Some s \<Rightarrow> s)"

section \<open>Auxiliary notions for the statements\<close>

text \<open>
  The wire format of one string field: \<open>u32 len(s)\<close> then \<open>bytes(s)\<close>, the length as
  \<open>encodeTriple\<close> converts it.
\<close>

definition wire_word :: "string \<Rightarrow> string" where
  "wire_word s = BigEndian_PutUint32 (wordLength (length s)) @ s"

text \<open>
  One triple on the wire, from its raw fields: subject, predicate, the kind byte \<open>k\<close>, then
  one field when \<open>k\<close> is the resource marker and two fields otherwise. \<open>frame_triple\<close> is
  the triple that \<open>decodeTriple\<close> builds from these fields.
\<close>

definition wire_frame :: "string \<Rightarrow> string \<Rightarrow> char \<Rightarrow> string \<Rightarrow> string \<Rightarrow> string" where
  "wire_frame s p k x y =
     wire_word s @ wire_word p @
       k # (if k = resourceTypeEncoding then wire_word x else wire_word x @ wire_word y)"

definition frame_triple :: "string \<Rightarrow> string \<Rightarrow> char \<Rightarrow> string \<Rightarrow> string \<Rightarrow> triple" where
  "frame_triple s p k x y =
     (if k = resourceTypeEncoding
      then \<lparr>sub = s, pred = p,
            obj = \<lparr>isLit = False, resourceID = x, lit = \<lparr>typ = [], val = []\<rparr>\<rparr>\<rparr>
      else \<lparr>sub = s, pred = p,
            obj = \<lparr>isLit = True, resourceID = [], lit = \<lparr>typ = x, val = y\<rparr>\<rparr>\<rparr>)"

text \<open>Every field that \<open>encodeTriple\<close> writes has a length that a \<open>uint32\<close> holds.\<close>

definition fits_wordLength :: "triple \<Rightarrow> bool" where
  "fits_wordLength t =
     (length (sub t) < 4294967296 \<and> length (pred t) < 4294967296 \<and>
      (if isLit (obj t)
       then length (typ (lit (obj t))) < 4294967296 \<and> length (val (lit (obj t))) < 4294967296
       else length (resourceID (obj t)) < 4294967296))"

text \<open>
  What \<open>Equal\<close> compares of a triple: subject, predicate, and of the object the resource
  identifier or the literal's type and value, by variant.
\<close>

definition triple_key :: "triple \<Rightarrow> string \<times> string \<times> (string + string \<times> string)" where
  "triple_key t =
     (sub t, pred t,
      if isLit (obj t) then Inr (typ (lit (obj t)), val (lit (obj t)))
      else Inl (resourceID (obj t)))"

text \<open>The triple that the decoder rebuilds from the encoding of \<open>t\<close>.\<close>

definition decoded_form :: "triple \<Rightarrow> triple" where
  "decoded_form t =
     frame_triple (sub t) (pred t)
       (if isLit (obj t) then literalTypeEncoding else resourceTypeEncoding)
       (if isLit (obj t) then typ (lit (obj t)) else resourceID (obj t))
       (val (lit (obj t)))"

text \<open>A triple whose subject is 2^32 bytes long, one more than a \<open>uint32\<close> length can say.\<close>

definition oversize_triple :: triple where
  "oversize_triple =
     \<lparr>sub = replicate 4294967296 (CHR ''a''), pred = [],
      obj = \<lparr>isLit = False, resourceID = [], lit = \<lparr>typ = [], val = []\<rparr>\<rparr>\<rparr>"

text \<open>
  A stream that ends exactly at a triple boundary: nothing, or one whole frame (fields
  within the \<open>uint32\<close> range) followed by such a stream.
\<close>

inductive at_triple_boundary :: "string \<Rightarrow> bool" where
  boundary_empty: "at_triple_boundary []"
| boundary_frame:
    "length s < 4294967296 \<Longrightarrow> length p < 4294967296 \<Longrightarrow> length x < 4294967296 \<Longrightarrow>
     k = resourceTypeEncoding \<or> length y < 4294967296 \<Longrightarrow>
     at_triple_boundary rest \<Longrightarrow>
     at_triple_boundary (wire_frame s p k x y @ rest)"

text \<open>
  The triples a stream of whole frames carries, in order: \<open>wire_triples bs ts\<close> holds when
  \<open>bs\<close> is the frames of \<open>ts\<close> one after the other, each frame standing for the triple
  \<open>frame_triple\<close> builds from its fields.
\<close>

inductive wire_triples :: "string \<Rightarrow> triple list \<Rightarrow> bool" where
  wire_end: "wire_triples [] []"
| wire_next:
    "length s < 4294967296 \<Longrightarrow> length p < 4294967296 \<Longrightarrow> length x < 4294967296 \<Longrightarrow>
     k = resourceTypeEncoding \<or> length y < 4294967296 \<Longrightarrow>
     wire_triples rest ts \<Longrightarrow>
     wire_triples (wire_frame s p k x y @ rest) (frame_triple s p k x y # ts)"

text \<open>
  The fields of one frame in wire order, each with the label under which
  \<open>decodeTriple\<close> reports a failed read of it.
\<close>

definition frame_fields ::
  "string \<Rightarrow> string \<Rightarrow> char \<Rightarrow> string \<Rightarrow> string \<Rightarrow> (string \<times> string) list" where
  "frame_fields s p k x y =
     [(''subject'', wire_word s), (''predicate'', wire_word p), (''object type'', [k])] @
     (if k = resourceTypeEncoding then [(''resource'', wire_word x)]
      else [(''literate type'', wire_word x), (''literate'', wire_word y)])"

text \<open>The messages of the errors a failed read of a field carries.\<close>

definition read_failures :: "string set" where
  "read_failures = {''EOF'', ''unexpected EOF'', ''triplestore: binary: cannot decode word''}"

section \<open>Big-endian lengths\<close>

lemma u32_bytes_sum:
  fixes w :: nat
  assumes "w < 4294967296"
  shows "((w div 16777216 mod 256 * 256 + w div 65536 mod 256) * 256 + w div 256 mod 256) * 256
           + w mod 256 = w"
proof -
  define a where "a = w div 256"
  define b where "b = a div 256"
  define c where "c = b div 256"
  have b: "w div 65536 = b" by (simp add: a_def b_def div_mult2_eq[symmetric])
  have c: "w div 16777216 = c" by (simp add: a_def b_def c_def div_mult2_eq[symmetric])
  have c256: "c < 256" using assms unfolding c[symmetric] by (simp add: less_mult_imp_div_less)
  have ew: "w = 256 * a + w mod 256" by (simp add: a_def)
  have ea: "a = 256 * b + a mod 256" by (simp add: b_def)
  have eb: "b = 256 * c + b mod 256" by (simp add: c_def)
  have "((c mod 256 * 256 + b mod 256) * 256 + a mod 256) * 256 + w mod 256 = w"
    using c256 ew ea eb by simp
  then show ?thesis by (simp add: b c a_def[symmetric])
qed

lemma Uint32_PutUint32:
  assumes "w < 4294967296"
  shows "BigEndian_Uint32 (BigEndian_PutUint32 w) = w"
proof -
  have "BigEndian_Uint32 (BigEndian_PutUint32 w) =
      ((w div 16777216 mod 256 * 256 + w div 65536 mod 256) * 256 + w div 256 mod 256) * 256
        + w mod 256"
    by (simp add: BigEndian_Uint32_def BigEndian_PutUint32_def)
  also have "\<dots> = w" using assms by (rule u32_bytes_sum)
  finally show ?thesis .
qed

lemma length_PutUint32 [simp]: "length (BigEndian_PutUint32 w) = 4"
  by (simp add: BigEndian_PutUint32_def)

lemma PutUint32_not_Nil [simp]: "BigEndian_PutUint32 w \<noteq> []"
  by (simp add: BigEndian_PutUint32_def)

lemma PutUint32_Uint32:
  assumes "length bs = 4"
  shows "BigEndian_PutUint32 (BigEndian_Uint32 bs) = bs"
proof -
  from assms obtain b0 b1 b2 b3 where bs: "bs = [b0, b1, b2, b3]"
    by (auto simp: length_Suc_conv numeral_eq_Suc)
  define x0 :: nat where "x0 = of_char b0"
  define x1 :: nat where "x1 = of_char b1"
  define x2 :: nat where "x2 = of_char b2"
  define x3 :: nat where "x3 = of_char b3"
  have lt: "x0 < 256" "x1 < 256" "x2 < 256" "x3 < 256"
    by (simp_all add: x0_def x1_def x2_def x3_def)
  define y1 where "y1 = x0 * 256 + x1"
  define y2 where "y2 = y1 * 256 + x2"
  define n where "n = y2 * 256 + x3"
  have q1: "n div 256 = y2" using lt by (simp add: n_def)
  have q2: "y2 div 256 = y1" using lt by (simp add: y2_def)
  have q3: "y1 div 256 = x0" using lt by (simp add: y1_def)
  have d2: "n div 65536 = y1" using q1 q2 div_mult2_eq[of n 256 256] by simp
  have d3: "n div 16777216 = x0" using d2 q3 div_mult2_eq[of n 65536 256] by simp
  have c3: "char_of n = b3" unfolding n_def
    by (metis char_of_char char_of_mod_256 mod_mult_self3 x3_def)
  have c2: "char_of y2 = b2" unfolding y2_def
    by (metis char_of_char char_of_mod_256 mod_mult_self3 x2_def)
  have c1: "char_of y1 = b1" unfolding y1_def
    by (metis char_of_char char_of_mod_256 mod_mult_self3 x1_def)
  have c0: "char_of x0 = b0" by (simp add: x0_def)
  have g: "BigEndian_Uint32 bs = n"
    by (simp add: bs BigEndian_Uint32_def n_def y2_def y1_def x0_def x1_def x2_def x3_def)
  have "BigEndian_PutUint32 n = [char_of x0, char_of y1, char_of y2, char_of n]"
    by (simp add: BigEndian_PutUint32_def q1 d2 d3)
  then have "BigEndian_PutUint32 n = bs" by (simp add: bs c0 c1 c2 c3)
  then show ?thesis by (subst g)
qed

lemma Uint32_bound: "length bs = 4 \<Longrightarrow> BigEndian_Uint32 bs < 4294967296"
proof -
  assume "length bs = 4"
  then obtain b0 b1 b2 b3 where bs: "bs = [b0, b1, b2, b3]"
    by (auto simp: length_Suc_conv numeral_eq_Suc)
  define x0 :: nat where "x0 = of_char b0"
  define x1 :: nat where "x1 = of_char b1"
  define x2 :: nat where "x2 = of_char b2"
  define x3 :: nat where "x3 = of_char b3"
  have lt: "x0 < 256" "x1 < 256" "x2 < 256" "x3 < 256"
    by (simp_all add: x0_def x1_def x2_def x3_def)
  have "BigEndian_Uint32 bs = ((x0 * 256 + x1) * 256 + x2) * 256 + x3"
    by (simp add: bs BigEndian_Uint32_def x0_def x1_def x2_def x3_def)
  with lt show ?thesis by simp
qed

section \<open>Frames: what the encoder writes and the decoder reads\<close>

lemma binary_Read_uint32_Put:
  "w < 4294967296 \<Longrightarrow> binary_Read_uint32 (BigEndian_PutUint32 w @ rest) = (Inr w, rest)"
  by (simp add: binary_Read_uint32_def io_ReadFull_def Uint32_PutUint32)

lemma readWord_wire_word:
  assumes "length s < 4294967296" and "dec_r dec = wire_word s @ rest"
  shows "readWord dec = (Inr s, dec\<lparr>dec_r := rest\<rparr>)"
  using assms
  by (simp add: readWord_def wire_word_def wordLength_def binary_Read_uint32_Put io_ReadFull_def)

lemma encodeTriple_eq:
  "encodeTriple t =
     (wire_word (sub t) @ wire_word (pred t) @
       (if isLit (obj t)
        then literalTypeEncoding # wire_word (typ (lit (obj t))) @ wire_word (val (lit (obj t)))
        else resourceTypeEncoding # wire_word (resourceID (obj t))), None)"
  by (simp add: encodeTriple_def Let_def Literal_def ResourceID_def Subject_def Predicate_def
      Object_def Type_def Value_def wire_word_def)

lemma binary_Read_uint8_Cons: "binary_Read_uint8 (k # rest) = (Inr k, rest)"
  by (simp add: binary_Read_uint8_def io_ReadFull_def)

lemma decodeTriple_frame:
  assumes "length s < 4294967296" "length p < 4294967296" "length x < 4294967296"
    and "k \<noteq> resourceTypeEncoding \<Longrightarrow> length y < 4294967296"
    and "dec_r dec = wire_frame s p k x y @ rest"
  shows "decodeTriple dec =
           ((False, None), \<lparr>dec_r = rest, dec_triples = dec_triples dec @ [frame_triple s p k x y]\<rparr>)"
proof -
  have 1: "readWord dec = (Inr s, dec\<lparr>dec_r := wire_word p @ k #
      (if k = resourceTypeEncoding then wire_word x else wire_word x @ wire_word y) @ rest\<rparr>)"
    using assms(1,5) by (intro readWord_wire_word) (simp_all add: wire_frame_def)
  have 2: "readWord (dec\<lparr>dec_r := wire_word p @ r'\<rparr>) = (Inr p, dec\<lparr>dec_r := r'\<rparr>)" for r'
    using readWord_wire_word[OF assms(2), of "dec\<lparr>dec_r := wire_word p @ r'\<rparr>" r'] by simp
  have 3: "readWord (dec\<lparr>dec_r := wire_word x @ r'\<rparr>) = (Inr x, dec\<lparr>dec_r := r'\<rparr>)" for r'
    using readWord_wire_word[OF assms(3), of "dec\<lparr>dec_r := wire_word x @ r'\<rparr>" r'] by simp
  show ?thesis
  proof (cases "k = resourceTypeEncoding")
    case True
    then show ?thesis
      by (simp add: decodeTriple_def 1 2 3 binary_Read_uint8_Cons frame_triple_def)
  next
    case False
    then have "length y < 4294967296" by (rule assms(4))
    then have 4: "readWord (dec\<lparr>dec_r := wire_word y @ r'\<rparr>) = (Inr y, dec\<lparr>dec_r := r'\<rparr>)" for r'
      using readWord_wire_word[of y "dec\<lparr>dec_r := wire_word y @ r'\<rparr>" r'] by simp
    from False show ?thesis
      by (simp add: decodeTriple_def 1 2 3 4 binary_Read_uint8_Cons frame_triple_def)
  qed
qed

lemma Decode_frame:
  assumes "length s < 4294967296" "length p < 4294967296" "length x < 4294967296"
    and "k \<noteq> resourceTypeEncoding \<Longrightarrow> length y < 4294967296"
    and "dec_r dec = wire_frame s p k x y @ rest"
  shows "binaryDecoder_Decode dec =
     binaryDecoder_Decode \<lparr>dec_r = rest, dec_triples = dec_triples dec @ [frame_triple s p k x y]\<rparr>"
  by (subst binaryDecoder_Decode.simps) (simp add: decodeTriple_frame[OF assms])

lemma decodeTriple_Nil:
  "dec_r dec = [] \<Longrightarrow> decodeTriple dec = ((True, None), dec\<lparr>dec_r := []\<rparr>)"
  by (simp add: decodeTriple_def readWord_def binary_Read_uint32_def io_ReadFull_def)

lemma Decode_Nil: "dec_r dec = [] \<Longrightarrow> binaryDecoder_Decode dec = (dec_triples dec, None)"
  by (subst binaryDecoder_Decode.simps) (simp add: decodeTriple_Nil)

lemma encodeTriple_frame:
  "encodeTriple t =
     (wire_frame (sub t) (pred t)
       (if isLit (obj t) then literalTypeEncoding else resourceTypeEncoding)
       (if isLit (obj t) then typ (lit (obj t)) else resourceID (obj t))
       (val (lit (obj t))), None)"
  by (simp add: encodeTriple_eq wire_frame_def literalTypeEncoding_def resourceTypeEncoding_def)

lemma Encode_Buffer:
  "binaryEncoder_Encode Buffer_Write buf tris =
     (buf @ concat (map (\<lambda>t. fst (encodeTriple t)) tris), None)"
  by (induction tris arbitrary: buf) (simp_all add: encodeTriple_frame Buffer_Write_def)

lemma Decode_encoded:
  assumes "\<forall>t \<in> set tris. fits_wordLength t"
    and "dec_r dec = concat (map (\<lambda>t. fst (encodeTriple t)) tris)"
  shows "binaryDecoder_Decode dec = (dec_triples dec @ map decoded_form tris, None)"
  using assms
proof (induction tris arbitrary: dec)
  case Nil
  then show ?case by (simp add: Decode_Nil)
next
  case (Cons t tris)
  let ?k = "if isLit (obj t) then literalTypeEncoding else resourceTypeEncoding"
  let ?x = "if isLit (obj t) then typ (lit (obj t)) else resourceID (obj t)"
  let ?rest = "concat (map (\<lambda>t. fst (encodeTriple t)) tris)"
  from Cons.prems(1) have fits: "fits_wordLength t" by simp
  have r: "dec_r dec = wire_frame (sub t) (pred t) ?k ?x (val (lit (obj t))) @ ?rest"
    using Cons.prems(2) by (simp add: encodeTriple_frame)
  have "binaryDecoder_Decode dec =
      binaryDecoder_Decode \<lparr>dec_r = ?rest, dec_triples = dec_triples dec @ [decoded_form t]\<rparr>"
    unfolding decoded_form_def
  proof (rule Decode_frame[OF _ _ _ _ r])
    show "length (sub t) < 4294967296" "length (pred t) < 4294967296"
      using fits by (simp_all add: fits_wordLength_def)
    show "length ?x < 4294967296"
      using fits by (simp add: fits_wordLength_def)
    show "length (val (lit (obj t))) < 4294967296" if "?k \<noteq> resourceTypeEncoding"
      using fits that by (simp add: fits_wordLength_def split: if_splits)
  qed
  also have "\<dots> = ((dec_triples dec @ [decoded_form t]) @ map decoded_form tris, None)"
    using Cons.prems(1) by (subst Cons.IH) simp_all
  finally show ?case by simp
qed

lemma triple_Equal_key:
  "triple_Equal (Some a) (Triple_ptr (Some b)) = Inr (triple_key a = triple_key b)"
  by (auto simp: triple_Equal_def object_Equal_def triple_key_def Subject_def Predicate_def
      Object_def Literal_def ResourceID_def Type_def Value_def)

lemma triple_key_decoded_form: "triple_key (decoded_form t) = triple_key t"
  by (simp add: triple_key_def decoded_form_def frame_triple_def literalTypeEncoding_def
      resourceTypeEncoding_def)

lemma readWord_triples:
  "readWord dec = (res, dec') \<Longrightarrow> dec_triples dec' = dec_triples dec"
  by (auto simp: readWord_def split: prod.splits sum.splits)

lemma decodeTriple_appends:
  assumes "decodeTriple dec = ((False, None), dec')" and "readWord dec = (Inr s, d1)"
  shows "\<exists>t. dec_triples dec' = dec_triples dec @ [t] \<and> sub t = s"
  using assms
  by (auto simp: decodeTriple_def Let_def split: prod.splits sum.splits if_splits
      dest!: readWord_triples)

lemma decodeTriple_grows:
  assumes "decodeTriple dec = ((False, None), dec')"
  shows "\<exists>t. dec_triples dec' = dec_triples dec @ [t]"
  using assms
  by (auto simp: decodeTriple_def Let_def split: prod.splits sum.splits if_splits
      dest!: readWord_triples)

lemma Decode_keeps:
  "binaryDecoder_Decode dec = (out, None) \<Longrightarrow> \<exists>more. out = dec_triples dec @ more"
proof (induction dec arbitrary: out rule: binaryDecoder_Decode.induct)
  case (1 dec)
  obtain dn err dec' where dt: "decodeTriple dec = ((dn, err), dec')"
    by (metis prod.exhaust)
  show ?case
  proof (cases dn)
    case True
    then have "readWord dec = (Inl io_EOF, dec')"
      using dt by (auto simp: decodeTriple_def Let_def split: prod.splits sum.splits if_splits)
    then have "dec_triples dec' = dec_triples dec" by (rule readWord_triples)
    moreover have "out = dec_triples dec'"
      using "1.prems" dt True by (subst (asm) binaryDecoder_Decode.simps) simp
    ultimately show ?thesis by simp
  next
    case False
    show ?thesis
    proof (cases err)
      case None
      have "binaryDecoder_Decode dec' = (out, None)"
        using "1.prems" dt False None by (subst (asm) binaryDecoder_Decode.simps) simp
      then obtain more where "out = dec_triples dec' @ more"
        using "1.IH"[OF dt[symmetric] refl False None] by blast
      moreover have "decodeTriple dec = ((False, None), dec')"
        using dt False None by simp
      then obtain t where "dec_triples dec' = dec_triples dec @ [t]"
        using decodeTriple_grows by blast
      ultimately show ?thesis by simp
    next
      case (Some e)
      then show ?thesis
        using "1.prems" dt False by (subst (asm) binaryDecoder_Decode.simps) simp
    qed
  qed
qed

lemma encode_oversize:
  "fst (binaryEncoder_Encode Buffer_Write [] [oversize_triple]) =
     wire_word [] @ replicate 4294967296 (CHR ''a'') @ wire_word [] @
       resourceTypeEncoding # wire_word []"
  by (subst Encode_Buffer)
    (simp add: encodeTriple_eq oversize_triple_def wire_word_def wordLength_def)

lemmas wire_eval = wire_word_def wordLength_def BigEndian_PutUint32_def char_of_def bit_0

section \<open>Binary round trip\<close>

text \<open>
  C1, as amended. For every finite list of triples in which each field written by
  \<open>encodeTriple\<close> is shorter than 2^32 bytes (resource objects, literals of any type tag
  and empty strings included), encoding into a buffer succeeds and decoding the bytes
  returns, with no error, the triples in the same order, each \<open>Equal\<close> to the original:
  the two lists are equal as multisets under \<open>Equal\<close>, that is, as multisets of what
  \<open>Equal\<close> compares (\<open>triple_key\<close>, by \<open>triple_Equal_key\<close>).
\<close>

theorem binary_round_trip:
  assumes "\<forall>t \<in> set tris. fits_wordLength t"
  shows "\<exists>buf out.
           binaryEncoder_Encode Buffer_Write [] tris = (buf, None) \<and>
           binaryDecoder_Decode (NewBinaryDecoder buf) = (out, None) \<and>
           list_all2 (\<lambda>a b. triple_Equal (Some a) (Triple_ptr (Some b)) = Inr True) out tris \<and>
           image_mset triple_key (mset out) = image_mset triple_key (mset tris)"
proof -
  let ?buf = "concat (map (\<lambda>t. fst (encodeTriple t)) tris)"
  have e: "binaryEncoder_Encode Buffer_Write [] tris = (?buf, None)"
    by (simp add: Encode_Buffer)
  have d: "binaryDecoder_Decode (NewBinaryDecoder ?buf) = (map decoded_form tris, None)"
    using Decode_encoded[OF assms, of "NewBinaryDecoder ?buf"] by (simp add: NewBinaryDecoder_def)
  have l: "list_all2 (\<lambda>a b. triple_Equal (Some a) (Triple_ptr (Some b)) = Inr True) (map decoded_form tris) tris"
    by (simp add: list_all2_map1 triple_Equal_key triple_key_decoded_form list.rel_refl)
  have m: "image_mset triple_key (mset (map decoded_form tris)) = image_mset triple_key (mset tris)"
    by (simp add: multiset.map_comp comp_def triple_key_decoded_form)
  from e d l m show ?thesis by blast
qed

theorem binary_round_trip_witness:
  "fits_wordLength
     \<lparr>sub = ''s'', pred = ''p'',
       obj = \<lparr>isLit = False, resourceID = ''o'', lit = \<lparr>typ = [], val = []\<rparr>\<rparr>\<rparr> \<and>
   fits_wordLength
     \<lparr>sub = [], pred = [],
       obj = \<lparr>isLit = True, resourceID = [], lit = \<lparr>typ = XsdInteger, val = ''3''\<rparr>\<rparr>\<rparr> \<and>
   (\<exists>buf out.
      binaryEncoder_Encode Buffer_Write []
      [\<lparr>sub = ''s'', pred = ''p'',
       obj = \<lparr>isLit = False, resourceID = ''o'', lit = \<lparr>typ = [], val = []\<rparr>\<rparr>\<rparr>,
      \<lparr>sub = [], pred = [],
       obj = \<lparr>isLit = True, resourceID = [], lit = \<lparr>typ = XsdInteger, val = ''3''\<rparr>\<rparr>\<rparr>] = (buf, None) \<and>
      binaryDecoder_Decode (NewBinaryDecoder buf) = (out, None) \<and>
      list_all2 (\<lambda>a b. triple_Equal (Some a) (Triple_ptr (Some b)) = Inr True) out
      [\<lparr>sub = ''s'', pred = ''p'',
       obj = \<lparr>isLit = False, resourceID = ''o'', lit = \<lparr>typ = [], val = []\<rparr>\<rparr>\<rparr>,
      \<lparr>sub = [], pred = [],
       obj = \<lparr>isLit = True, resourceID = [], lit = \<lparr>typ = XsdInteger, val = ''3''\<rparr>\<rparr>\<rparr>] \<and>
      image_mset triple_key (mset out) = image_mset triple_key (mset
      [\<lparr>sub = ''s'', pred = ''p'',
       obj = \<lparr>isLit = False, resourceID = ''o'', lit = \<lparr>typ = [], val = []\<rparr>\<rparr>\<rparr>,
      \<lparr>sub = [], pred = [],
       obj = \<lparr>isLit = True, resourceID = [], lit = \<lparr>typ = XsdInteger, val = ''3''\<rparr>\<rparr>\<rparr>]))"
proof -
  have h: "\<forall>t \<in> set
      [\<lparr>sub = ''s'', pred = ''p'',
       obj = \<lparr>isLit = False, resourceID = ''o'', lit = \<lparr>typ = [], val = []\<rparr>\<rparr>\<rparr>,
      \<lparr>sub = [], pred = [],
       obj = \<lparr>isLit = True, resourceID = [], lit = \<lparr>typ = XsdInteger, val = ''3''\<rparr>\<rparr>\<rparr>].
      fits_wordLength t"
    by (simp add: fits_wordLength_def XsdInteger_def)
  from h binary_round_trip [OF h] show ?thesis by simp
qed

text \<open>
  C1, as stated, fails: the length prefix is a \<open>uint32\<close>, so the 2^32-byte subject of
  \<open>oversize_triple\<close> is written with length 0 and the decoder cannot give it back. Whatever
  the decoder returns for the encoding of that single triple, it is not a list equal to
  it.
\<close>

theorem binary_round_trip_oversize_counterexample:
  "\<not> (snd (binaryDecoder_Decode (NewBinaryDecoder
            (fst (binaryEncoder_Encode Buffer_Write [] [oversize_triple])))) = None \<and>
      image_mset triple_key (mset (fst (binaryDecoder_Decode (NewBinaryDecoder
            (fst (binaryEncoder_Encode Buffer_Write [] [oversize_triple])))))) =
      image_mset triple_key (mset [oversize_triple]))"
proof
  let ?rest = "replicate 4294967296 (CHR ''a'') @ wire_word [] @ resourceTypeEncoding # wire_word []"
  let ?d0 = "NewBinaryDecoder (wire_word [] @ ?rest)"
  assume "snd (binaryDecoder_Decode (NewBinaryDecoder
            (fst (binaryEncoder_Encode Buffer_Write [] [oversize_triple])))) = None \<and>
      image_mset triple_key (mset (fst (binaryDecoder_Decode (NewBinaryDecoder
            (fst (binaryEncoder_Encode Buffer_Write [] [oversize_triple])))))) =
      image_mset triple_key (mset [oversize_triple])"
  then obtain out where out: "binaryDecoder_Decode ?d0 = (out, None)"
    and keys: "image_mset triple_key (mset out) = {#triple_key oversize_triple#}"
    unfolding encode_oversize by (cases "binaryDecoder_Decode ?d0") auto
  have rw: "readWord ?d0 = (Inr [], ?d0\<lparr>dec_r := ?rest\<rparr>)"
    by (rule readWord_wire_word) (simp_all add: NewBinaryDecoder_def)
  obtain dn err dec' where dt: "decodeTriple ?d0 = ((dn, err), dec')"
    by (metis prod.exhaust)
  have "\<not> dn"
    using dt rw by (auto simp: decodeTriple_def Let_def split: prod.splits sum.splits if_splits)
  moreover have "err = None"
    using out dt \<open>\<not> dn\<close> by (subst (asm) binaryDecoder_Decode.simps) (auto split: option.splits)
  ultimately have dt': "decodeTriple ?d0 = ((False, None), dec')" using dt by simp
  then obtain t where t: "dec_triples dec' = dec_triples ?d0 @ [t]" "sub t = []"
    using decodeTriple_appends[OF dt' rw] by blast
  have "binaryDecoder_Decode dec' = (out, None)"
    using out dt' by (subst (asm) binaryDecoder_Decode.simps) simp
  then obtain more where "out = dec_triples dec' @ more"
    using Decode_keeps by blast
  then have "out = t # more" using t by (simp add: NewBinaryDecoder_def)
  with keys have "triple_key t = triple_key oversize_triple" by simp
  then have "sub t = sub oversize_triple" by (simp add: triple_key_def)
  then show False using t(2) by (simp add: oversize_triple_def)
qed

section \<open>Decoding: clean end, truncation, errors\<close>

lemma readWord_Inr:
  assumes "readWord dec = (Inr w, dec')"
  shows "dec_r dec = wire_word w @ dec_r dec' \<and> length w < 4294967296 \<and>
         dec' = dec\<lparr>dec_r := dec_r dec'\<rparr>"
proof -
  let ?r = "dec_r dec"
  from assms have len4: "4 \<le> length ?r"
    by (auto simp: readWord_def binary_Read_uint32_def io_ReadFull_def
        split: prod.splits sum.splits if_splits)
  define n where "n = BigEndian_Uint32 (take 4 ?r)"
  have n: "n < 4294967296" unfolding n_def by (rule Uint32_bound) (use len4 in simp)
  have put: "BigEndian_PutUint32 n = take 4 ?r"
    unfolding n_def by (rule PutUint32_Uint32) (use len4 in simp)
  have r32: "binary_Read_uint32 ?r = (Inr n, drop 4 ?r)"
    using len4 by (auto simp: binary_Read_uint32_def io_ReadFull_def n_def)
  from assms r32 have full: "io_ReadFull (drop 4 ?r) n = (Inr w, dec_r dec')"
    and d: "dec' = dec\<lparr>dec_r := dec_r dec'\<rparr>"
    by (auto simp: readWord_def split: prod.splits sum.splits)
  from full have w: "w = take n (drop 4 ?r)" and r': "dec_r dec' = drop n (drop 4 ?r)"
    and ln: "n \<le> length (drop 4 ?r)"
    by (auto simp: io_ReadFull_def split: if_splits)
  have lw: "length w = n" using w ln by simp
  have ww: "wire_word w = take 4 ?r @ w"
    using n by (simp add: wire_word_def lw wordLength_def put)
  have "wire_word w @ dec_r dec' = take 4 ?r @ take n (drop 4 ?r) @ drop n (drop 4 ?r)"
    unfolding ww by (simp add: w r')
  also have "\<dots> = ?r" by (simp only: append_take_drop_id)
  finally show ?thesis using lw n d by simp
qed

lemma binary_Read_uint8_Inr:
  "binary_Read_uint8 rd = (Inr k, rd') \<Longrightarrow> rd = k # rd'"
  by (cases rd) (auto simp: binary_Read_uint8_def io_ReadFull_def split: if_splits)

lemma decodeTriple_ok_frame:
  assumes "decodeTriple dec = ((False, None), dec')"
  shows "\<exists>s p k x y. dec_r dec = wire_frame s p k x y @ dec_r dec' \<and>
           length s < 4294967296 \<and> length p < 4294967296 \<and> length x < 4294967296 \<and>
           (k = resourceTypeEncoding \<or> length y < 4294967296)"
proof -
  from assms obtain s d1 where 1: "readWord dec = (Inr s, d1)"
    by (auto simp: decodeTriple_def split: prod.splits sum.splits if_splits)
  from assms 1 obtain p d2 where 2: "readWord d1 = (Inr p, d2)"
    by (auto simp: decodeTriple_def split: prod.splits sum.splits if_splits)
  from assms 1 2 obtain k rd where 3: "binary_Read_uint8 (dec_r d2) = (Inr k, rd)"
    by (auto simp: decodeTriple_def split: prod.splits sum.splits if_splits)
  from assms 1 2 3 obtain x d4 where 4: "readWord (d2\<lparr>dec_r := rd\<rparr>) = (Inr x, d4)"
    by (auto simp: decodeTriple_def Let_def split: prod.splits sum.splits if_splits)
  note f1 = readWord_Inr[OF 1] and f2 = readWord_Inr[OF 2] and f4 = readWord_Inr[OF 4]
  note f3 = binary_Read_uint8_Inr[OF 3]
  show ?thesis
  proof (cases "k = resourceTypeEncoding")
    case True
    with assms 1 2 3 4 have "dec_r dec' = dec_r d4"
      by (auto simp: decodeTriple_def Let_def split: prod.splits sum.splits if_splits)
    with f1 f2 f3 f4 True have "dec_r dec = wire_frame s p k x [] @ dec_r dec'"
      by (simp add: wire_frame_def)
    with f1 f2 f4 True show ?thesis by blast
  next
    case False
    with assms 1 2 3 4 obtain y d5 where 5: "readWord d4 = (Inr y, d5)"
      and "dec_r dec' = dec_r d5"
      by (auto simp: decodeTriple_def Let_def split: prod.splits sum.splits if_splits)
    note f5 = readWord_Inr[OF 5]
    from f1 f2 f3 f4 f5 False \<open>dec_r dec' = dec_r d5\<close>
    have "dec_r dec = wire_frame s p k x y @ dec_r dec'"
      by (simp add: wire_frame_def)
    with f1 f2 f4 f5 show ?thesis by blast
  qed
qed

lemma decodeTriple_done_iff: "fst (fst (decodeTriple dec)) \<longleftrightarrow> dec_r dec = []"
proof
  assume "dec_r dec = []"
  then show "fst (fst (decodeTriple dec))" by (simp add: decodeTriple_Nil)
next
  assume d: "fst (fst (decodeTriple dec))"
  then have "fst (readWord dec) = Inl io_EOF"
    by (auto simp: decodeTriple_def Let_def split: prod.splits sum.splits if_splits)
  then show "dec_r dec = []"
    by (auto simp: readWord_def binary_Read_uint32_def io_ReadFull_def
        split: prod.splits sum.splits if_splits)
qed

lemma Decode_ok_boundary:
  "snd (binaryDecoder_Decode dec) = None \<Longrightarrow> at_triple_boundary (dec_r dec)"
proof (induction dec rule: binaryDecoder_Decode.induct)
  case (1 dec)
  obtain dn err dec' where dt: "decodeTriple dec = ((dn, err), dec')"
    by (metis prod.exhaust)
  show ?case
  proof (cases dn)
    case True
    then have "dec_r dec = []" using dt decodeTriple_done_iff[of dec] by simp
    then show ?thesis by (simp add: boundary_empty)
  next
    case False
    have "err = None"
      using "1.prems" dt False
      by (subst (asm) binaryDecoder_Decode.simps) (auto split: option.splits)
    then have ok: "decodeTriple dec = ((False, None), dec')" using dt False by simp
    have "snd (binaryDecoder_Decode dec') = None"
      using "1.prems" ok by (subst (asm) binaryDecoder_Decode.simps) simp
    then have "at_triple_boundary (dec_r dec')"
      using "1.IH"[OF dt[symmetric] refl False \<open>err = None\<close>] by simp
    with decodeTriple_ok_frame[OF ok] show ?thesis
      by (auto intro: boundary_frame)
  qed
qed

lemma boundary_Decode_ok:
  "at_triple_boundary bs \<Longrightarrow> dec_r dec = bs \<Longrightarrow> snd (binaryDecoder_Decode dec) = None"
proof (induction arbitrary: dec rule: at_triple_boundary.induct)
  case boundary_empty
  then show ?case by (simp add: Decode_Nil)
next
  case (boundary_frame s p x k y rest)
  have "binaryDecoder_Decode dec =
      binaryDecoder_Decode \<lparr>dec_r = rest, dec_triples = dec_triples dec @ [frame_triple s p k x y]\<rparr>"
    using boundary_frame.hyps(1-4) boundary_frame.prems
    by (intro Decode_frame) auto
  then show ?case using boundary_frame.IH by simp
qed

lemma wire_triples_Decode:
  "wire_triples bs ts \<Longrightarrow> dec_r dec = bs \<Longrightarrow>
   binaryDecoder_Decode dec = (dec_triples dec @ ts, None)"
proof (induction arbitrary: dec rule: wire_triples.induct)
  case wire_end
  then show ?case by (simp add: Decode_Nil)
next
  case (wire_next s p x k y rest ts)
  have "binaryDecoder_Decode dec =
      binaryDecoder_Decode \<lparr>dec_r = rest, dec_triples = dec_triples dec @ [frame_triple s p k x y]\<rparr>"
    using wire_next.hyps(1-4) wire_next.prems
    by (intro Decode_frame) auto
  then show ?case using wire_next.IH by simp
qed

lemma decodeTriple_ok_triple:
  assumes "decodeTriple dec = ((False, None), dec')"
  shows "\<exists>s p k x y. dec_r dec = wire_frame s p k x y @ dec_r dec' \<and>
           dec_triples dec' = dec_triples dec @ [frame_triple s p k x y] \<and>
           length s < 4294967296 \<and> length p < 4294967296 \<and> length x < 4294967296 \<and>
           (k = resourceTypeEncoding \<or> length y < 4294967296)"
proof -
  from decodeTriple_ok_frame[OF assms] obtain s p k x y
    where r: "dec_r dec = wire_frame s p k x y @ dec_r dec'"
      and l: "length s < 4294967296" "length p < 4294967296" "length x < 4294967296"
        "k = resourceTypeEncoding \<or> length y < 4294967296"
    by blast
  have "decodeTriple dec =
      ((False, None), \<lparr>dec_r = dec_r dec', dec_triples = dec_triples dec @ [frame_triple s p k x y]\<rparr>)"
    using l r by (intro decodeTriple_frame) auto
  with assms have "dec_triples dec' = dec_triples dec @ [frame_triple s p k x y]"
    by (metis binaryDecoder.select_convs(2) prod.inject)
  with r l show ?thesis by blast
qed

lemma Decode_ok_wire_triples:
  "binaryDecoder_Decode dec = (out, None) \<Longrightarrow>
   \<exists>ts. wire_triples (dec_r dec) ts \<and> out = dec_triples dec @ ts"
proof (induction dec arbitrary: out rule: binaryDecoder_Decode.induct)
  case (1 dec)
  obtain dn err dec' where dt: "decodeTriple dec = ((dn, err), dec')"
    by (metis prod.exhaust)
  show ?case
  proof (cases dn)
    case True
    then have e: "dec_r dec = []" using dt decodeTriple_done_iff[of dec] by simp
    then have "binaryDecoder_Decode dec = (dec_triples dec, None)" by (rule Decode_Nil)
    with "1.prems" e show ?thesis by (auto intro: wire_end)
  next
    case False
    have n: "err = None"
      using "1.prems" dt False
      by (subst (asm) binaryDecoder_Decode.simps) (auto split: option.splits)
    then have ok: "decodeTriple dec = ((False, None), dec')" using dt False by simp
    have "binaryDecoder_Decode dec' = (out, None)"
      using "1.prems" ok by (subst (asm) binaryDecoder_Decode.simps) simp
    then obtain ts where ts: "wire_triples (dec_r dec') ts" "out = dec_triples dec' @ ts"
      using "1.IH"[OF dt[symmetric] refl False n] by blast
    from decodeTriple_ok_triple[OF ok] obtain s p k x y
      where r: "dec_r dec = wire_frame s p k x y @ dec_r dec'"
        and t: "dec_triples dec' = dec_triples dec @ [frame_triple s p k x y]"
        and l: "length s < 4294967296" "length p < 4294967296" "length x < 4294967296"
          "k = resourceTypeEncoding \<or> length y < 4294967296"
      by blast
    have "wire_triples (dec_r dec) (frame_triple s p k x y # ts)"
      unfolding r using l ts(1) by (rule wire_next)
    moreover have "out = dec_triples dec @ frame_triple s p k x y # ts"
      using ts(2) t by simp
    ultimately show ?thesis by blast
  qed
qed

text \<open>
  C2. \<open>Decode\<close> on an empty input returns no triple and no error; \<open>decodeTriple\<close>
  reports \<open>done\<close> exactly when no byte is left at the read of the subject length; and
  \<open>Decode\<close> returns without an error exactly when the stream ends at a triple boundary,
  so a stream cut anywhere else yields an error. When it returns without an error it
  returns the decoded triples: from a fresh decoder \<open>Decode\<close> returns \<open>(ts, nil)\<close> exactly
  when the stream is the frames of \<open>ts\<close>, and from any decoder state it returns
  \<open>(out, nil)\<close> exactly when \<open>out\<close> is the triples the decoder holds followed by the
  triples of the frames left in its stream.
\<close>

theorem Decode_succeeds_iff_at_triple_boundary:
  "binaryDecoder_Decode (NewBinaryDecoder []) = ([], None) \<and>
   (fst (fst (decodeTriple dec)) \<longleftrightarrow> dec_r dec = []) \<and>
   (snd (binaryDecoder_Decode (NewBinaryDecoder bs)) = None \<longleftrightarrow> at_triple_boundary bs) \<and>
   (binaryDecoder_Decode (NewBinaryDecoder bs) = (ts, None) \<longleftrightarrow> wire_triples bs ts) \<and>
   (binaryDecoder_Decode dec = (out, None) \<longleftrightarrow>
      (\<exists>more. wire_triples (dec_r dec) more \<and> out = dec_triples dec @ more))"
proof (intro conjI)
  show "binaryDecoder_Decode (NewBinaryDecoder []) = ([], None)"
    by (simp add: Decode_Nil NewBinaryDecoder_def)
  show "fst (fst (decodeTriple dec)) \<longleftrightarrow> dec_r dec = []"
    by (rule decodeTriple_done_iff)
  show "snd (binaryDecoder_Decode (NewBinaryDecoder bs)) = None \<longleftrightarrow> at_triple_boundary bs"
    using Decode_ok_boundary[of "NewBinaryDecoder bs"]
      boundary_Decode_ok[of bs "NewBinaryDecoder bs"]
    by (auto simp: NewBinaryDecoder_def)
  show "binaryDecoder_Decode (NewBinaryDecoder bs) = (ts, None) \<longleftrightarrow> wire_triples bs ts"
    using Decode_ok_wire_triples[of "NewBinaryDecoder bs" ts]
      wire_triples_Decode[of bs ts "NewBinaryDecoder bs"]
    by (auto simp: NewBinaryDecoder_def)
  show "binaryDecoder_Decode dec = (out, None) \<longleftrightarrow>
      (\<exists>more. wire_triples (dec_r dec) more \<and> out = dec_triples dec @ more)"
    using Decode_ok_wire_triples[of dec out] wire_triples_Decode[of "dec_r dec" _ dec]
    by auto
qed

theorem Decode_succeeds_iff_at_triple_boundary_witness:
  "wire_triples
     [CHR 0x00, CHR 0x00, CHR 0x00, CHR 0x01, CHR ''s'',
      CHR 0x00, CHR 0x00, CHR 0x00, CHR 0x01, CHR ''p'',
      CHR 0x01,
      CHR 0x00, CHR 0x00, CHR 0x00, CHR 0x01, CHR ''t'',
      CHR 0x00, CHR 0x00, CHR 0x00, CHR 0x01, CHR ''v'',
      CHR 0x00, CHR 0x00, CHR 0x00, CHR 0x01, CHR ''a'',
      CHR 0x00, CHR 0x00, CHR 0x00, CHR 0x00,
      CHR 0x00,
      CHR 0x00, CHR 0x00, CHR 0x00, CHR 0x01, CHR ''o'']
     [\<lparr>sub = ''s'', pred = ''p'',
       obj = \<lparr>isLit = True, resourceID = [], lit = \<lparr>typ = ''t'', val = ''v''\<rparr>\<rparr>\<rparr>,
      \<lparr>sub = ''a'', pred = [],
       obj = \<lparr>isLit = False, resourceID = ''o'', lit = \<lparr>typ = [], val = []\<rparr>\<rparr>\<rparr>] \<and>
   binaryDecoder_Decode (NewBinaryDecoder
     [CHR 0x00, CHR 0x00, CHR 0x00, CHR 0x01, CHR ''s'',
      CHR 0x00, CHR 0x00, CHR 0x00, CHR 0x01, CHR ''p'',
      CHR 0x01,
      CHR 0x00, CHR 0x00, CHR 0x00, CHR 0x01, CHR ''t'',
      CHR 0x00, CHR 0x00, CHR 0x00, CHR 0x01, CHR ''v'',
      CHR 0x00, CHR 0x00, CHR 0x00, CHR 0x01, CHR ''a'',
      CHR 0x00, CHR 0x00, CHR 0x00, CHR 0x00,
      CHR 0x00,
      CHR 0x00, CHR 0x00, CHR 0x00, CHR 0x01, CHR ''o'']) =
     ([\<lparr>sub = ''s'', pred = ''p'',
        obj = \<lparr>isLit = True, resourceID = [], lit = \<lparr>typ = ''t'', val = ''v''\<rparr>\<rparr>\<rparr>,
       \<lparr>sub = ''a'', pred = [],
        obj = \<lparr>isLit = False, resourceID = ''o'', lit = \<lparr>typ = [], val = []\<rparr>\<rparr>\<rparr>], None) \<and>
   \<not> at_triple_boundary [CHR 0x00, CHR 0x00, CHR 0x00, CHR 0x00, CHR 0x00] \<and>
   binaryDecoder_Decode (NewBinaryDecoder [CHR 0x00, CHR 0x00, CHR 0x00, CHR 0x00, CHR 0x00]) =
     ([], Some (errorString ''predicate: unexpected EOF''))"
proof -
  have "wire_triples
      (wire_frame ''s'' ''p'' (CHR 0x01) ''t'' ''v'' @ wire_frame ''a'' [] (CHR 0x00) ''o'' [] @ [])
      [frame_triple ''s'' ''p'' (CHR 0x01) ''t'' ''v'', frame_triple ''a'' [] (CHR 0x00) ''o'' []]"
    by (intro wire_next wire_end) (simp_all add: resourceTypeEncoding_def)
  then have w: "wire_triples
     [CHR 0x00, CHR 0x00, CHR 0x00, CHR 0x01, CHR ''s'',
      CHR 0x00, CHR 0x00, CHR 0x00, CHR 0x01, CHR ''p'',
      CHR 0x01,
      CHR 0x00, CHR 0x00, CHR 0x00, CHR 0x01, CHR ''t'',
      CHR 0x00, CHR 0x00, CHR 0x00, CHR 0x01, CHR ''v'',
      CHR 0x00, CHR 0x00, CHR 0x00, CHR 0x01, CHR ''a'',
      CHR 0x00, CHR 0x00, CHR 0x00, CHR 0x00,
      CHR 0x00,
      CHR 0x00, CHR 0x00, CHR 0x00, CHR 0x01, CHR ''o'']
     [\<lparr>sub = ''s'', pred = ''p'',
       obj = \<lparr>isLit = True, resourceID = [], lit = \<lparr>typ = ''t'', val = ''v''\<rparr>\<rparr>\<rparr>,
      \<lparr>sub = ''a'', pred = [],
       obj = \<lparr>isLit = False, resourceID = ''o'', lit = \<lparr>typ = [], val = []\<rparr>\<rparr>\<rparr>]"
    by (simp add: wire_frame_def frame_triple_def wire_eval resourceTypeEncoding_def)
  have d: "binaryDecoder_Decode (NewBinaryDecoder [CHR 0x00, CHR 0x00, CHR 0x00, CHR 0x00, CHR 0x00]) =
     ([], Some (errorString ''predicate: unexpected EOF''))"
    by (simp add: binaryDecoder_Decode.simps decodeTriple_def readWord_def binary_Read_uint32_def
        io_ReadFull_def BigEndian_Uint32_def NewBinaryDecoder_def fmt_Errorf_def)
  note c = Decode_succeeds_iff_at_triple_boundary [where dec = "NewBinaryDecoder []"]
  have 1: "binaryDecoder_Decode (NewBinaryDecoder
     [CHR 0x00, CHR 0x00, CHR 0x00, CHR 0x01, CHR ''s'',
      CHR 0x00, CHR 0x00, CHR 0x00, CHR 0x01, CHR ''p'',
      CHR 0x01,
      CHR 0x00, CHR 0x00, CHR 0x00, CHR 0x01, CHR ''t'',
      CHR 0x00, CHR 0x00, CHR 0x00, CHR 0x01, CHR ''v'',
      CHR 0x00, CHR 0x00, CHR 0x00, CHR 0x01, CHR ''a'',
      CHR 0x00, CHR 0x00, CHR 0x00, CHR 0x00,
      CHR 0x00,
      CHR 0x00, CHR 0x00, CHR 0x00, CHR 0x01, CHR ''o'']) =
     ([\<lparr>sub = ''s'', pred = ''p'',
        obj = \<lparr>isLit = True, resourceID = [], lit = \<lparr>typ = ''t'', val = ''v''\<rparr>\<rparr>\<rparr>,
       \<lparr>sub = ''a'', pred = [],
        obj = \<lparr>isLit = False, resourceID = ''o'', lit = \<lparr>typ = [], val = []\<rparr>\<rparr>\<rparr>], None)"
    using w c [THEN conjunct2, THEN conjunct2, THEN conjunct2, THEN conjunct1] by blast
  have 2: "\<not> at_triple_boundary [CHR 0x00, CHR 0x00, CHR 0x00, CHR 0x00, CHR 0x00]"
    using d c [THEN conjunct2, THEN conjunct2, THEN conjunct1,
        of "[CHR 0x00, CHR 0x00, CHR 0x00, CHR 0x00, CHR 0x00]"]
    by simp
  from w 1 2 d show ?thesis by (intro conjI)
qed

lemma Decode_error_nil:
  "snd (binaryDecoder_Decode dec) \<noteq> None \<Longrightarrow> fst (binaryDecoder_Decode dec) = []"
proof (induction dec rule: binaryDecoder_Decode.induct)
  case (1 dec)
  obtain dn err dec' where dt: "decodeTriple dec = ((dn, err), dec')"
    by (metis prod.exhaust)
  show ?case
  proof (cases "\<not> dn \<and> err = None")
    case True
    then have "binaryDecoder_Decode dec = binaryDecoder_Decode dec'"
      using dt by (subst binaryDecoder_Decode.simps) simp
    with "1.prems" "1.IH"[OF dt[symmetric] refl] True show ?thesis by simp
  next
    case False
    then show ?thesis
      using "1.prems" dt
      by (subst binaryDecoder_Decode.simps, subst (asm) binaryDecoder_Decode.simps)
        (auto split: option.splits)
  qed
qed



lemma frame_fields_concat: "concat (map snd (frame_fields s p k x y)) = wire_frame s p k x y"
  by (simp add: frame_fields_def wire_frame_def)

lemma strict_prefix_appendD:
  assumes "strict_prefix c (a @ b)" and "length a \<le> length c"
  shows "\<exists>c'. c = a @ c' \<and> strict_prefix c' b"
proof -
  from assms(1) obtain zs where zs: "a @ b = c @ zs" and ne: "zs \<noteq> []"
    by (auto simp: strict_prefix_def prefix_def)
  from zs assms(2) obtain us where "c = a @ us" "b = us @ zs"
    by (auto simp: append_eq_append_conv2)
  with ne show ?thesis by (auto simp: strict_prefix_def prefix_def)
qed

lemma readWord_truncated:
  assumes c: "strict_prefix c (wire_word w)" and w: "length w < 4294967296"
    and r: "dec_r dec = c"
  shows "\<exists>e d'. readWord dec = (Inl e, d') \<and> (e = io_EOF \<longleftrightarrow> c = []) \<and> Error e \<in> read_failures"
proof -
  consider "c = []" | "c \<noteq> []" "length c < 4" | "4 \<le> length c" by linarith
  then show ?thesis
  proof cases
    case 1
    then show ?thesis using r
      by (simp add: readWord_def binary_Read_uint32_def io_ReadFull_def read_failures_def)
  next
    case 2
    then show ?thesis using r
      by (simp add: readWord_def binary_Read_uint32_def io_ReadFull_def read_failures_def)
  next
    case 3
    then obtain c' where c': "c = BigEndian_PutUint32 (length w) @ c'" "strict_prefix c' w"
      using strict_prefix_appendD[of c "BigEndian_PutUint32 (wordLength (length w))" w] c w
      by (auto simp: wire_word_def wordLength_def)
    then have lt: "length c' < length w"
      by (metis prefix_length_less)
    have "binary_Read_uint32 (dec_r dec) = (Inr (length w), c')"
      using r c'(1) w by (simp add: binary_Read_uint32_Put)
    moreover have "\<exists>e rd. io_ReadFull c' (length w) = (Inl e, rd)"
      using lt by (auto simp: io_ReadFull_def)
    ultimately show ?thesis using 3
      by (auto simp: readWord_def read_failures_def)
  qed
qed

lemma Decode_skip:
  "at_triple_boundary good \<Longrightarrow> dec_r dec = good @ tail \<Longrightarrow>
   \<exists>acc. binaryDecoder_Decode dec = binaryDecoder_Decode \<lparr>dec_r = tail, dec_triples = acc\<rparr>"
proof (induction arbitrary: dec rule: at_triple_boundary.induct)
  case boundary_empty
  then have "dec = \<lparr>dec_r = tail, dec_triples = dec_triples dec\<rparr>" by simp
  then show ?case by metis
next
  case (boundary_frame s p x k y rest)
  have "binaryDecoder_Decode dec =
      binaryDecoder_Decode \<lparr>dec_r = rest @ tail, dec_triples = dec_triples dec @ [frame_triple s p k x y]\<rparr>"
    using boundary_frame.hyps(1-4) boundary_frame.prems
    by (intro Decode_frame) auto
  moreover have "\<exists>acc. binaryDecoder_Decode \<lparr>dec_r = rest @ tail, dec_triples = dec_triples dec @ [frame_triple s p k x y]\<rparr>
      = binaryDecoder_Decode \<lparr>dec_r = tail, dec_triples = acc\<rparr>"
    by (rule boundary_frame.IH) simp
  ultimately show ?case by simp
qed

lemma Decode_error:
  "decodeTriple dec = ((False, Some e), dec') \<Longrightarrow> binaryDecoder_Decode dec = ([], Some e)"
  by (subst binaryDecoder_Decode.simps) simp

lemma readWord_wire_word':
  "length s < 4294967296 \<Longrightarrow>
   readWord \<lparr>dec_r = wire_word s @ rest, dec_triples = acc\<rparr> = (Inr s, \<lparr>dec_r = rest, dec_triples = acc\<rparr>)"
  using readWord_wire_word[of s "\<lparr>dec_r = wire_word s @ rest, dec_triples = acc\<rparr>" rest] by simp

lemma readWord_wire_word_end:
  "length s < 4294967296 \<Longrightarrow>
   readWord \<lparr>dec_r = wire_word s, dec_triples = acc\<rparr> = (Inr s, \<lparr>dec_r = [], dec_triples = acc\<rparr>)"
  using readWord_wire_word'[of s "[]" acc] by simp

lemma decodeTriple_truncated:
  assumes lens: "length s < 4294967296" "length p < 4294967296" "length x < 4294967296"
      "k = resourceTypeEncoding \<or> length y < 4294967296"
    and i: "i < length (frame_fields s p k x y)"
    and c: "strict_prefix c (snd (frame_fields s p k x y ! i))"
    and ne: "0 < i \<or> c \<noteq> []"
  shows "\<exists>msg \<in> read_failures. \<exists>dec'.
     decodeTriple \<lparr>dec_r = concat (map snd (take i (frame_fields s p k x y))) @ c, dec_triples = acc\<rparr> =
       ((False, Some (errorString (fst (frame_fields s p k x y ! i) @ '': '' @ msg))), dec')"
proof -
  let ?D = "\<lambda>bs. \<lparr>dec_r = bs, dec_triples = acc\<rparr>"
  have rt: "\<exists>e d'. readWord (?D c) = (Inl e, d') \<and> (e = io_EOF \<longleftrightarrow> c = []) \<and> Error e \<in> read_failures"
    if "strict_prefix c (wire_word w)" "length w < 4294967296" for w
    using readWord_truncated[OF that, of "?D c"] by simp
  from i have "i = 0 \<or> i = 1 \<or> i = 2 \<or> i = 3 \<or> (i = 4 \<and> k \<noteq> resourceTypeEncoding)"
    by (auto simp: frame_fields_def split: if_splits)
  then consider (subj) "i = 0" | (pred) "i = 1" | (kind) "i = 2"
    | (res) "i = 3" "k = resourceTypeEncoding" | (lty) "i = 3" "k \<noteq> resourceTypeEncoding"
    | (lval) "i = 4" "k \<noteq> resourceTypeEncoding" by blast
  then show ?thesis
  proof cases
    case subj
    with c ne obtain e d' where "readWord (?D c) = (Inl e, d')" "e \<noteq> io_EOF" "Error e \<in> read_failures"
      using rt[of s] lens by (auto simp: frame_fields_def)
    then show ?thesis using subj
      by (auto simp: decodeTriple_def fmt_Errorf_def frame_fields_def)
  next
    case pred
    with c obtain e d' where "readWord (?D c) = (Inl e, d')" "Error e \<in> read_failures"
      using rt[of p] lens by (auto simp: frame_fields_def)
    then show ?thesis using pred lens
      by (auto simp: decodeTriple_def fmt_Errorf_def frame_fields_def readWord_wire_word')
  next
    case kind
    with c have "c = []" by (auto simp: frame_fields_def strict_prefix_def prefix_Cons)
    then show ?thesis using kind lens
      by (auto simp: decodeTriple_def fmt_Errorf_def frame_fields_def readWord_wire_word' readWord_wire_word_end
          binary_Read_uint8_def io_ReadFull_def read_failures_def)
  next
    case res
    with c obtain e d' where "readWord (?D c) = (Inl e, d')" "Error e \<in> read_failures"
      using rt[of x] lens by (auto simp: frame_fields_def)
    then show ?thesis using res lens
      by (auto simp: decodeTriple_def fmt_Errorf_def frame_fields_def readWord_wire_word' readWord_wire_word_end
          binary_Read_uint8_Cons)
  next
    case lty
    with c obtain e d' where "readWord (?D c) = (Inl e, d')" "Error e \<in> read_failures"
      using rt[of x] lens by (auto simp: frame_fields_def)
    then show ?thesis using lty lens
      by (auto simp: decodeTriple_def fmt_Errorf_def frame_fields_def readWord_wire_word' readWord_wire_word_end
          binary_Read_uint8_Cons)
  next
    case lval
    with c obtain e d' where "readWord (?D c) = (Inl e, d')" "Error e \<in> read_failures"
      using rt[of y] lens by (auto simp: frame_fields_def)
    then show ?thesis using lval lens
      by (auto simp: decodeTriple_def fmt_Errorf_def frame_fields_def readWord_wire_word' readWord_wire_word_end
          binary_Read_uint8_Cons)
  qed
qed

text \<open>
  C3. Take a stream of whole frames followed by a frame cut inside its field number \<open>i\<close>:
  the fields before it are complete and only a proper part \<open>c\<close> of field \<open>i\<close> is there
  (for the subject, a non-empty part: nothing at all is the clean end). Then \<open>Decode\<close>
  returns no triple and an error whose message is the label of that field (subject,
  predicate, object type, resource, literate type, literate), a colon, and the message
  of the failed read.
\<close>

theorem truncated_field_error:
  assumes "at_triple_boundary good"
    and "length s < 4294967296" "length p < 4294967296" "length x < 4294967296"
      "k = resourceTypeEncoding \<or> length y < 4294967296"
    and "i < length (frame_fields s p k x y)"
    and "strict_prefix c (snd (frame_fields s p k x y ! i))"
    and "0 < i \<or> c \<noteq> []"
  shows "\<exists>msg \<in> read_failures.
     binaryDecoder_Decode
       (NewBinaryDecoder (good @ concat (map snd (take i (frame_fields s p k x y))) @ c)) =
     ([], Some (errorString (fst (frame_fields s p k x y ! i) @ '': '' @ msg)))"
proof -
  let ?tail = "concat (map snd (take i (frame_fields s p k x y))) @ c"
  obtain acc where "binaryDecoder_Decode (NewBinaryDecoder (good @ ?tail)) =
      binaryDecoder_Decode \<lparr>dec_r = ?tail, dec_triples = acc\<rparr>"
    using Decode_skip[OF assms(1), of "NewBinaryDecoder (good @ ?tail)" ?tail]
    by (auto simp: NewBinaryDecoder_def)
  moreover obtain msg dec' where "msg \<in> read_failures"
    "decodeTriple \<lparr>dec_r = ?tail, dec_triples = acc\<rparr> =
       ((False, Some (errorString (fst (frame_fields s p k x y ! i) @ '': '' @ msg))), dec')"
    using decodeTriple_truncated[OF assms(2-8), of acc] by blast
  ultimately show ?thesis by (auto dest: Decode_error)
qed

theorem truncated_field_error_witness:
  "at_triple_boundary (wire_frame ''a'' ''b'' literalTypeEncoding ''c'' ''d'') \<and>
   3 < length (frame_fields ''s'' ''p'' resourceTypeEncoding ''o'' []) \<and>
   strict_prefix [CHR 0x00, CHR 0x00, CHR 0x00, CHR 0x01]
     (snd (frame_fields ''s'' ''p'' resourceTypeEncoding ''o'' [] ! 3)) \<and>
   (\<exists>msg \<in> read_failures.
      binaryDecoder_Decode (NewBinaryDecoder
        (wire_frame ''a'' ''b'' literalTypeEncoding ''c'' ''d'' @
         [CHR 0x00, CHR 0x00, CHR 0x00, CHR 0x01, CHR ''s'',
          CHR 0x00, CHR 0x00, CHR 0x00, CHR 0x01, CHR ''p'',
          CHR 0x00,
          CHR 0x00, CHR 0x00, CHR 0x00, CHR 0x01])) =
      ([], Some (errorString (''resource: '' @ msg))))"
proof -
  have b: "at_triple_boundary (wire_frame ''a'' ''b'' literalTypeEncoding ''c'' ''d'' @ [])"
    by (rule boundary_frame) (simp_all add: boundary_empty)
  then have b': "at_triple_boundary (wire_frame ''a'' ''b'' literalTypeEncoding ''c'' ''d'')"
    by simp
  have i: "3 < length (frame_fields ''s'' ''p'' resourceTypeEncoding ''o'' [])"
    by (simp add: frame_fields_def)
  have c: "strict_prefix [CHR 0x00, CHR 0x00, CHR 0x00, CHR 0x01]
     (snd (frame_fields ''s'' ''p'' resourceTypeEncoding ''o'' [] ! 3))"
    by (simp add: frame_fields_def wire_eval)
  have "\<exists>msg \<in> read_failures.
      binaryDecoder_Decode (NewBinaryDecoder
        (wire_frame ''a'' ''b'' literalTypeEncoding ''c'' ''d'' @
         concat (map snd (take 3 (frame_fields ''s'' ''p'' resourceTypeEncoding ''o'' []))) @
         [CHR 0x00, CHR 0x00, CHR 0x00, CHR 0x01])) =
      ([], Some (errorString (fst (frame_fields ''s'' ''p'' resourceTypeEncoding ''o'' [] ! 3) @ '': '' @ msg)))"
    by (rule truncated_field_error [OF b' _ _ _ _ i c]) simp_all
  then have "\<exists>msg \<in> read_failures.
      binaryDecoder_Decode (NewBinaryDecoder
        (wire_frame ''a'' ''b'' literalTypeEncoding ''c'' ''d'' @
         [CHR 0x00, CHR 0x00, CHR 0x00, CHR 0x01, CHR ''s'',
          CHR 0x00, CHR 0x00, CHR 0x00, CHR 0x01, CHR ''p'',
          CHR 0x00,
          CHR 0x00, CHR 0x00, CHR 0x00, CHR 0x01])) =
      ([], Some (errorString (''resource: '' @ msg)))"
    by (simp add: frame_fields_def wire_eval resourceTypeEncoding_def)
  with b' i c show ?thesis by blast
qed



section \<open>Triple equality\<close>




section \<open>N-Triples lines\<close>

lemma ntriples_Encode_Buffer:
  "ntriplesEncoder_Encode XsdDateTime Buffer_Write buf tris =
     (buf @ concat (map (\<lambda>t. fst (ntriplesEncoder_Encode XsdDateTime Buffer_Write [] [t])) tris), None)"
  by (induction tris arbitrary: buf)
    (simp_all add: Buffer_Write_def Let_def split: prod.splits)

text \<open>
  C7. Into a buffer, the N-Triples encoder never fails and writes the lines of the
  triples one after the other, one per triple. The line of a triple is
  \<open><subject> <predicate> \<close>, then \<open><resource>\<close> for a resource object or the quoted value
  for a literal, then \<open> .\<close> and a line feed. After the quoted value comes the XML Schema
  datatype suffix for the types boolean, dateTime and integer (the three constants being
  distinct), and nothing for any other type.
\<close>

theorem ntriples_line_format:
  "ntriplesEncoder_Encode XsdDateTime Buffer_Write buf tris =
     (buf @ concat (map (\<lambda>t. fst (ntriplesEncoder_Encode XsdDateTime Buffer_Write [] [t])) tris), None) \<and>
   (\<not> isLit (obj t) \<longrightarrow>
      ntriplesEncoder_Encode XsdDateTime Buffer_Write [] [t] =
        (''<'' @ sub t @ ''> <'' @ pred t @ ''> <'' @ resourceID (obj t) @ ''> .'' @ [CHR 0x0A], None)) \<and>
   (isLit (obj t) \<and> typ (lit (obj t)) = XsdBoolean \<longrightarrow>
      ntriplesEncoder_Encode XsdDateTime Buffer_Write [] [t] =
        (''<'' @ sub t @ ''> <'' @ pred t @ ''> '' @ [CHR 0x22] @ val (lit (obj t)) @ [CHR 0x22] @
         ''^^<http://www.w3.org/2001/XMLSchema#boolean> .'' @ [CHR 0x0A], None)) \<and>
   (isLit (obj t) \<and> typ (lit (obj t)) = XsdDateTime \<and> XsdDateTime \<noteq> XsdBoolean \<longrightarrow>
      ntriplesEncoder_Encode XsdDateTime Buffer_Write [] [t] =
        (''<'' @ sub t @ ''> <'' @ pred t @ ''> '' @ [CHR 0x22] @ val (lit (obj t)) @ [CHR 0x22] @
         ''^^<http://www.w3.org/2001/XMLSchema#dateTime> .'' @ [CHR 0x0A], None)) \<and>
   (isLit (obj t) \<and> typ (lit (obj t)) = XsdInteger \<and> XsdDateTime \<noteq> XsdInteger \<longrightarrow>
      ntriplesEncoder_Encode XsdDateTime Buffer_Write [] [t] =
        (''<'' @ sub t @ ''> <'' @ pred t @ ''> '' @ [CHR 0x22] @ val (lit (obj t)) @ [CHR 0x22] @
         ''^^<http://www.w3.org/2001/XMLSchema#integer> .'' @ [CHR 0x0A], None)) \<and>
   (isLit (obj t) \<and> typ (lit (obj t)) \<notin> {XsdBoolean, XsdDateTime, XsdInteger} \<longrightarrow>
      ntriplesEncoder_Encode XsdDateTime Buffer_Write [] [t] =
        (''<'' @ sub t @ ''> <'' @ pred t @ ''> '' @ [CHR 0x22] @ val (lit (obj t)) @ [CHR 0x22] @
         '' .'' @ [CHR 0x0A], None))"
proof -
  have 1: "ntriplesEncoder_Encode XsdDateTime Buffer_Write buf tris =
     (buf @ concat (map (\<lambda>t. fst (ntriplesEncoder_Encode XsdDateTime Buffer_Write [] [t])) tris), None)"
    by (rule ntriples_Encode_Buffer)
  have 2: "\<not> isLit (obj t) \<longrightarrow>
      ntriplesEncoder_Encode XsdDateTime Buffer_Write [] [t] =
        (''<'' @ sub t @ ''> <'' @ pred t @ ''> <'' @ resourceID (obj t) @ ''> .'' @ [CHR 0x0A], None)"
    by (simp add: Buffer_Write_def ResourceID_def Literal_def Subject_def Predicate_def Object_def)
  have 3: "isLit (obj t) \<and> typ (lit (obj t)) = XsdBoolean \<longrightarrow>
      ntriplesEncoder_Encode XsdDateTime Buffer_Write [] [t] =
        (''<'' @ sub t @ ''> <'' @ pred t @ ''> '' @ [CHR 0x22] @ val (lit (obj t)) @ [CHR 0x22] @
         ''^^<http://www.w3.org/2001/XMLSchema#boolean> .'' @ [CHR 0x0A], None)"
    by (simp add: Buffer_Write_def ResourceID_def Literal_def Subject_def Predicate_def Object_def
        Type_def Value_def)
  have 4: "isLit (obj t) \<and> typ (lit (obj t)) = XsdDateTime \<and> XsdDateTime \<noteq> XsdBoolean \<longrightarrow>
      ntriplesEncoder_Encode XsdDateTime Buffer_Write [] [t] =
        (''<'' @ sub t @ ''> <'' @ pred t @ ''> '' @ [CHR 0x22] @ val (lit (obj t)) @ [CHR 0x22] @
         ''^^<http://www.w3.org/2001/XMLSchema#dateTime> .'' @ [CHR 0x0A], None)"
    by (simp add: Buffer_Write_def ResourceID_def Literal_def Subject_def Predicate_def Object_def
        Type_def Value_def)
  have 5: "isLit (obj t) \<and> typ (lit (obj t)) = XsdInteger \<and> XsdDateTime \<noteq> XsdInteger \<longrightarrow>
      ntriplesEncoder_Encode XsdDateTime Buffer_Write [] [t] =
        (''<'' @ sub t @ ''> <'' @ pred t @ ''> '' @ [CHR 0x22] @ val (lit (obj t)) @ [CHR 0x22] @
         ''^^<http://www.w3.org/2001/XMLSchema#integer> .'' @ [CHR 0x0A], None)"
    by (auto simp: Buffer_Write_def ResourceID_def Literal_def Subject_def Predicate_def Object_def
        Type_def Value_def XsdInteger_def XsdBoolean_def)
  have 6: "isLit (obj t) \<and> typ (lit (obj t)) \<notin> {XsdBoolean, XsdDateTime, XsdInteger} \<longrightarrow>
      ntriplesEncoder_Encode XsdDateTime Buffer_Write [] [t] =
        (''<'' @ sub t @ ''> <'' @ pred t @ ''> '' @ [CHR 0x22] @ val (lit (obj t)) @ [CHR 0x22] @
         '' .'' @ [CHR 0x0A], None)"
    by (simp add: Buffer_Write_def ResourceID_def Literal_def Subject_def Predicate_def Object_def
        Type_def Value_def)
  from 1 2 3 4 5 6 show ?thesis by (intro conjI)
qed

theorem ntriples_line_format_witness:
  "ntriplesEncoder_Encode ''xsd:dateTime'' Buffer_Write []
     [\<lparr>sub = ''s'', pred = ''p'',
       obj = \<lparr>isLit = False, resourceID = ''o'', lit = \<lparr>typ = [], val = []\<rparr>\<rparr>\<rparr>] =
     (''<s> <p> <o> .'' @ [CHR 0x0A], None) \<and>
   ntriplesEncoder_Encode ''xsd:dateTime'' Buffer_Write []
     [\<lparr>sub = ''s'', pred = ''p'',
       obj = \<lparr>isLit = True, resourceID = [], lit = \<lparr>typ = XsdBoolean, val = ''true''\<rparr>\<rparr>\<rparr>] =
     (''<s> <p> '' @ [CHR 0x22] @ ''true'' @ [CHR 0x22] @
      ''^^<http://www.w3.org/2001/XMLSchema#boolean> .'' @ [CHR 0x0A], None) \<and>
   ntriplesEncoder_Encode ''xsd:dateTime'' Buffer_Write []
     [\<lparr>sub = ''s'', pred = ''p'',
       obj = \<lparr>isLit = True, resourceID = [], lit = \<lparr>typ = ''xsd:dateTime'', val = ''d''\<rparr>\<rparr>\<rparr>] =
     (''<s> <p> '' @ [CHR 0x22] @ ''d'' @ [CHR 0x22] @
      ''^^<http://www.w3.org/2001/XMLSchema#dateTime> .'' @ [CHR 0x0A], None) \<and>
   ntriplesEncoder_Encode ''xsd:dateTime'' Buffer_Write []
     [\<lparr>sub = ''s'', pred = ''p'',
       obj = \<lparr>isLit = True, resourceID = [], lit = \<lparr>typ = XsdInteger, val = ''3''\<rparr>\<rparr>\<rparr>] =
     (''<s> <p> '' @ [CHR 0x22] @ ''3'' @ [CHR 0x22] @
      ''^^<http://www.w3.org/2001/XMLSchema#integer> .'' @ [CHR 0x0A], None) \<and>
   ntriplesEncoder_Encode ''xsd:dateTime'' Buffer_Write []
     [\<lparr>sub = ''s'', pred = ''p'',
       obj = \<lparr>isLit = True, resourceID = [], lit = \<lparr>typ = XsdString, val = ''v''\<rparr>\<rparr>\<rparr>] =
     (''<s> <p> '' @ [CHR 0x22] @ ''v'' @ [CHR 0x22] @ '' .'' @ [CHR 0x0A], None) \<and>
   ntriplesEncoder_Encode ''xsd:dateTime'' Buffer_Write []
     [\<lparr>sub = ''s'', pred = ''p'',
       obj = \<lparr>isLit = True, resourceID = [], lit = \<lparr>typ = ''myinteger'', val = ''2''\<rparr>\<rparr>\<rparr>] =
     (''<s> <p> '' @ [CHR 0x22] @ ''2'' @ [CHR 0x22] @ '' .'' @ [CHR 0x0A], None)"
  using
    ntriples_line_format [of "''xsd:dateTime''" "[]" "[]"
      "\<lparr>sub = ''s'', pred = ''p'',
        obj = \<lparr>isLit = False, resourceID = ''o'', lit = \<lparr>typ = [], val = []\<rparr>\<rparr>\<rparr>"]
    ntriples_line_format [of "''xsd:dateTime''" "[]" "[]"
      "\<lparr>sub = ''s'', pred = ''p'',
        obj = \<lparr>isLit = True, resourceID = [], lit = \<lparr>typ = XsdBoolean, val = ''true''\<rparr>\<rparr>\<rparr>"]
    ntriples_line_format [of "''xsd:dateTime''" "[]" "[]"
      "\<lparr>sub = ''s'', pred = ''p'',
        obj = \<lparr>isLit = True, resourceID = [], lit = \<lparr>typ = ''xsd:dateTime'', val = ''d''\<rparr>\<rparr>\<rparr>"]
    ntriples_line_format [of "''xsd:dateTime''" "[]" "[]"
      "\<lparr>sub = ''s'', pred = ''p'',
        obj = \<lparr>isLit = True, resourceID = [], lit = \<lparr>typ = XsdInteger, val = ''3''\<rparr>\<rparr>\<rparr>"]
    ntriples_line_format [of "''xsd:dateTime''" "[]" "[]"
      "\<lparr>sub = ''s'', pred = ''p'',
        obj = \<lparr>isLit = True, resourceID = [], lit = \<lparr>typ = XsdString, val = ''v''\<rparr>\<rparr>\<rparr>"]
    ntriples_line_format [of "''xsd:dateTime''" "[]" "[]"
      "\<lparr>sub = ''s'', pred = ''p'',
        obj = \<lparr>isLit = True, resourceID = [], lit = \<lparr>typ = ''myinteger'', val = ''2''\<rparr>\<rparr>\<rparr>"]
  by (simp add: XsdBoolean_def XsdInteger_def XsdString_def del: ntriplesEncoder_Encode.simps)

section \<open>Snapshot isolation\<close>

lemma arena_foldl_Add: "arena (foldl Source_Add src batches) = arena src @ concat batches"
  by (induction batches arbitrary: src) (simp_all add: Source_Add_def)

text \<open>
  C5. A snapshot of a source holding N triples counts N. After any number of further
  \<open>Add\<close> calls on the source, that snapshot still sees the same triples, counts N and
  answers \<open>WithPredObj\<close> as before, while a fresh snapshot counts N plus the number of
  triples added.
\<close>

theorem snapshot_isolation:
  "Snapshot_Count src (Source_Snapshot src) = length (arena src) \<and>
   Snapshot_view (foldl Source_Add src batches) (Source_Snapshot src) =
     Snapshot_view src (Source_Snapshot src) \<and>
   Snapshot_Count (foldl Source_Add src batches) (Source_Snapshot src) = length (arena src) \<and>
   Snapshot_WithPredObj (foldl Source_Add src batches) (Source_Snapshot src) p ob =
     Snapshot_WithPredObj src (Source_Snapshot src) p ob \<and>
   Snapshot_Count (foldl Source_Add src batches) (Source_Snapshot (foldl Source_Add src batches)) =
     length (arena src) + length (concat batches)"
  by (simp add: Snapshot_Count_def Snapshot_view_def Source_Snapshot_def Snapshot_WithPredObj_def
      arena_foldl_Add)

section \<open>The bounded read as worded, against the test tables\<close>

text \<open>
  The bounded read of section 4.3 as worded reproduces every row of the two test tables
  of the source but three. In \<open>sub > ject>\<close> the first \<open>>\<close> is followed by whitespace, so the
  read as worded stops there, where \<open>TestLexerReadIRI\<close> expects \<open>sub > ject\<close>. In the two
  rows where \<open>^\<close> comes right after the closing quote, the read as worded keeps the quote
  as content and runs out of input, where \<open>TestLexerReadStringLiteral\<close> expects the
  content before that quote.
\<close>

lemma bounded_read_spec_against_tests:
  "filter (\<lambda>(input, node). readIRI_spec input \<noteq> node) TestLexerReadIRI_tcases =
     [(''sub > ject>'', ''sub > ject'')] \<and>
   readIRI_spec ''sub > ject>'' = ''sub '' \<and>
   filter (\<lambda>(input, node). readStringLiteral_spec input \<noteq> node)
       TestLexerReadStringLiteral_tcases =
     [(''li'' @ [CHR 0x22] @ ''t'' @ [CHR 0x22] @ ''^'', ''li'' @ [CHR 0x22] @ ''t''),
      (''li'' @ [CHR 0x22] @ ''t'' @ [CHR 0x22] @ ''^^'', ''li'' @ [CHR 0x22] @ ''t'')] \<and>
   readStringLiteral_spec (''li'' @ [CHR 0x22] @ ''t'' @ [CHR 0x22] @ ''^'') = []"
  by (simp add: TestLexerReadIRI_tcases_def TestLexerReadStringLiteral_tcases_def
      readIRI_spec_def readStringLiteral_spec_def isWhitespace_def)

section \<open>Merging the streams of a dataset\<close>

lemma collect_eq:
  "collect results all errs =
     (all @ concat (map res_tris results), errs @ List.map_filter res_err results)"
  by (induction results arbitrary: all errs) (auto simp: List.map_filter_simps split: option.splits)

lemma fst_merge_results: "fst (merge_results results) = concat (map res_tris results)"
  by (simp add: merge_results_def collect_eq)

lemma snd_merge_results:
  "snd (merge_results results) =
     (case List.map_filter res_err results of [] \<Rightarrow> None | e # es \<Rightarrow> Some e)"
  by (cases "List.map_filter res_err results") (simp_all add: merge_results_def collect_eq)

lemma set_map_filter_res_err:
  "e \<in> set (List.map_filter res_err results) \<longleftrightarrow> (\<exists>r \<in> set results. res_err r = Some e)"
  by (induction results) (auto simp: List.map_filter_simps split: option.splits)

lemma snd_merge_Some:
  "snd (merge_results results) = Some e \<Longrightarrow> \<exists>r \<in> set results. res_err r = Some e"
proof -
  assume "snd (merge_results results) = Some e"
  then have "e \<in> set (List.map_filter res_err results)"
    by (auto simp: snd_merge_results split: list.splits)
  then show ?thesis by (simp add: set_map_filter_res_err)
qed

lemma map_filter_res_err_Nil:
  "List.map_filter res_err results = [] \<longleftrightarrow> (\<forall>r \<in> set results. res_err r = None)"
  by (induction results) (auto simp: List.map_filter_simps split: option.splits)

lemma snd_merge_None:
  "snd (merge_results results) = None \<longleftrightarrow> (\<forall>r \<in> set results. res_err r = None)"
  using map_filter_res_err_Nil[of results]
  by (auto simp: snd_merge_results split: list.splits)

lemma res_run_decoder [simp]:
  "res_tris (run_decoder decode r) = fst (decode r)" "res_err (run_decoder decode r) = snd (decode r)"
  by (simp_all add: run_decoder_def split: prod.splits)

lemma mset_concat_res_tris:
  "mset (concat (map res_tris results)) = sum_mset (image_mset (\<lambda>r. mset (res_tris r)) (mset results))"
  by (induction results) simp_all

lemma two_results:
  assumes "mset results = {#a, b#}"
  shows "results = [a, b] \<or> results = [b, a]"
proof -
  from assms have "length results = 2"
    by (metis size_mset size_add_mset size_empty numeral_2_eq_2)
  then obtain x y where xy: "results = [x, y]"
    by (auto simp: length_Suc_conv numeral_2_eq_2)
  with assms show ?thesis by (auto simp: add_eq_conv_diff)
qed

text \<open>
  C4. \<open>datasetDecoder.Decode\<close> has an outcome for every list of readers. In every
  outcome the triples are the concatenation, in the order of arrival, of the triples
  every stream's decoder returned, whether or not other streams failed; the error is
  nil exactly when no stream failed, and otherwise it is the error of one of the
  failing streams. Over two binary streams, one ending at a triple boundary and one
  truncated, in either order, the outcome holds exactly the triples of the valid stream
  and the non-nil error of the truncated one.
\<close>

theorem datasetDecoder_keeps_partial_success:
  "datasetDecoder_Decode decode rs (merge_results (map (run_decoder decode) rs)) \<and>
   (datasetDecoder_Decode decode rs out \<longrightarrow>
      (\<exists>results. mset results = mset (map (run_decoder decode) rs) \<and>
                 fst out = concat (map res_tris results)) \<and>
      mset (fst out) = sum_mset (image_mset (\<lambda>r. mset (fst (decode r))) (mset rs)) \<and>
      (snd out = None \<longleftrightarrow> (\<forall>r \<in> set rs. snd (decode r) = None)) \<and>
      (\<forall>e. snd out = Some e \<longrightarrow> (\<exists>r \<in> set rs. snd (decode r) = Some e))) \<and>
   (mset streams = {#valid, truncated#} \<and>
    at_triple_boundary valid \<and> \<not> at_triple_boundary truncated \<and>
    datasetDecoder_Decode (\<lambda>bs. binaryDecoder_Decode (NewBinaryDecoder bs)) streams out' \<longrightarrow>
      fst out' = fst (binaryDecoder_Decode (NewBinaryDecoder valid)) \<and>
      snd (binaryDecoder_Decode (NewBinaryDecoder valid)) = None \<and>
      snd out' = snd (binaryDecoder_Decode (NewBinaryDecoder truncated)) \<and>
      snd out' \<noteq> None)"
proof (intro conjI impI)
  show "datasetDecoder_Decode decode rs (merge_results (map (run_decoder decode) rs))"
    by (rule datasetDecoder_Decode.intros) simp
next
  assume "datasetDecoder_Decode decode rs out"
  then obtain results where r: "mset results = mset (map (run_decoder decode) rs)"
    and out: "out = merge_results results"
    by (auto elim: datasetDecoder_Decode.cases)
  from r have s: "set results = run_decoder decode ` set rs"
    by (metis mset_eq_setD set_map)
  show "\<exists>results. mset results = mset (map (run_decoder decode) rs) \<and>
                 fst out = concat (map res_tris results)"
    using r out fst_merge_results by blast
  have "mset (fst out) = sum_mset (image_mset (\<lambda>r. mset (res_tris r)) (mset results))"
    by (simp add: out fst_merge_results mset_concat_res_tris)
  then show "mset (fst out) = sum_mset (image_mset (\<lambda>r. mset (fst (decode r))) (mset rs))"
    by (simp add: r multiset.map_comp comp_def)
  show "snd out = None \<longleftrightarrow> (\<forall>r \<in> set rs. snd (decode r) = None)"
    by (simp add: out snd_merge_None s)
  show "\<forall>e. snd out = Some e \<longrightarrow> (\<exists>r \<in> set rs. snd (decode r) = Some e)"
    using snd_merge_Some[of results] by (auto simp: out s)
next
  let ?D = "\<lambda>bs. binaryDecoder_Decode (NewBinaryDecoder bs)"
  assume a: "mset streams = {#valid, truncated#} \<and>
    at_triple_boundary valid \<and> \<not> at_triple_boundary truncated \<and>
    datasetDecoder_Decode ?D streams out'"
  then obtain results where r: "mset results = mset (map (run_decoder ?D) streams)"
    and out: "out' = merge_results results"
    by (auto elim: datasetDecoder_Decode.cases)
  have v: "snd (?D valid) = None"
    using a boundary_Decode_ok[of valid "NewBinaryDecoder valid"] by (simp add: NewBinaryDecoder_def)
  have t: "snd (?D truncated) \<noteq> None"
    using a Decode_ok_boundary[of "NewBinaryDecoder truncated"] by (auto simp: NewBinaryDecoder_def)
  then have t0: "fst (?D truncated) = []" by (rule Decode_error_nil)
  from t obtain e where e: "snd (?D truncated) = Some e" by auto
  have "mset results = {#run_decoder ?D valid, run_decoder ?D truncated#}"
    using r a by (metis image_mset_add_mset image_mset_empty mset_map)
  then have "results = [run_decoder ?D valid, run_decoder ?D truncated] \<or>
             results = [run_decoder ?D truncated, run_decoder ?D valid]"
    by (rule two_results)
  then have "fst out' = fst (?D valid) \<and> snd out' = Some e"
    using v e t0
    by (auto simp: out fst_merge_results snd_merge_results List.map_filter_simps)
  then show "fst out' = fst (?D valid)" "snd out' = snd (?D truncated)" "snd out' \<noteq> None"
    using e by simp_all
  show "snd (?D valid) = None" by (rule v)
qed

theorem datasetDecoder_keeps_partial_success_witness:
  "datasetDecoder_Decode (\<lambda>bs. binaryDecoder_Decode (NewBinaryDecoder bs))
     [[CHR 0x00, CHR 0x00, CHR 0x00, CHR 0x01, CHR ''s'',
       CHR 0x00, CHR 0x00, CHR 0x00, CHR 0x01, CHR ''p'',
       CHR 0x00, CHR 0x00, CHR 0x00, CHR 0x00, CHR 0x01, CHR ''o''],
      [CHR 0x00, CHR 0x00]]
     ([\<lparr>sub = ''s'', pred = ''p'',
        obj = \<lparr>isLit = False, resourceID = ''o'', lit = \<lparr>typ = [], val = []\<rparr>\<rparr>\<rparr>],
      Some (errorString ''subject: unexpected EOF''))"
proof -
  let ?D = "\<lambda>bs. binaryDecoder_Decode (NewBinaryDecoder bs)"
  let ?V = "[CHR 0x00, CHR 0x00, CHR 0x00, CHR 0x01, CHR ''s'',
       CHR 0x00, CHR 0x00, CHR 0x00, CHR 0x01, CHR ''p'',
       CHR 0x00, CHR 0x00, CHR 0x00, CHR 0x00, CHR 0x01, CHR ''o'']"
  let ?T = "[CHR 0x00, CHR 0x00]"
  let ?out = "merge_results (map (run_decoder ?D) [?V, ?T])"
  have dv: "?D ?V = ([\<lparr>sub = ''s'', pred = ''p'',
        obj = \<lparr>isLit = False, resourceID = ''o'', lit = \<lparr>typ = [], val = []\<rparr>\<rparr>\<rparr>], None)"
    by (simp add: binaryDecoder_Decode.simps decodeTriple_def readWord_def binary_Read_uint32_def
        binary_Read_uint8_def io_ReadFull_def BigEndian_Uint32_def NewBinaryDecoder_def
        fmt_Errorf_def resourceTypeEncoding_def)
  have dt: "?D ?T = ([], Some (errorString ''subject: unexpected EOF''))"
    by (simp add: binaryDecoder_Decode.simps decodeTriple_def readWord_def binary_Read_uint32_def
        binary_Read_uint8_def io_ReadFull_def BigEndian_Uint32_def NewBinaryDecoder_def
        fmt_Errorf_def resourceTypeEncoding_def)
  have bv: "at_triple_boundary ?V"
    using boundary_Decode_ok Decode_ok_boundary[of "NewBinaryDecoder ?V"] dv
    by (simp add: NewBinaryDecoder_def)
  have bt: "\<not> at_triple_boundary ?T"
    using boundary_Decode_ok[of ?T "NewBinaryDecoder ?T"] dt by (auto simp: NewBinaryDecoder_def)
  have run: "datasetDecoder_Decode ?D [?V, ?T] ?out"
    by (rule datasetDecoder_Decode.intros) simp
  have "fst ?out = fst (?D ?V) \<and> snd (?D ?V) = None \<and> snd ?out = snd (?D ?T) \<and> snd ?out \<noteq> None"
  proof (rule datasetDecoder_keeps_partial_success
      [where streams = "[?V, ?T]" and valid = ?V and truncated = ?T and out' = ?out,
        THEN conjunct2, THEN conjunct2, THEN mp])
    show "mset [?V, ?T] = {#?V, ?T#} \<and> at_triple_boundary ?V \<and> \<not> at_triple_boundary ?T \<and>
        datasetDecoder_Decode ?D [?V, ?T] ?out"
      using bv bt run by simp
  qed
  then have "?out = ([\<lparr>sub = ''s'', pred = ''p'',
        obj = \<lparr>isLit = False, resourceID = ''o'', lit = \<lparr>typ = [], val = []\<rparr>\<rparr>\<rparr>],
      Some (errorString ''subject: unexpected EOF''))"
    unfolding dv dt by (metis fst_conv snd_conv prod.collapse)
  with run show ?thesis by simp
qed

end
